(* ===== verification/Prelude.thy ===== *)
theory Prelude
  imports Main "HOL-Library.Signed_Division"
begin

text \<open>
  Shared vocabulary of the development: the faults a C function of
  \<^verbatim>\<open>src/udp.cpp\<close> can end in, checked array access, C's truncating
  remainder \<open>%\<close> (written \<open>smod\<close>), and the modular-arithmetic lemmas the
  window components share.
\<close>

section \<open>Faults and results\<close>

text \<open>
  Every model returns \<open>fault + 'a\<close>.  \<open>Starved\<close> means the function is
  still waiting on the socket or the clock when the environment's script runs out:
  over a finite script, a function that never returns ends in \<open>Starved\<close>.
  \<open>OutOfBounds i\<close> is an array access at index \<open>i\<close> outside the array,
  undefined behaviour in C; \<open>Uninitialised i\<close> is a read of an element that was
  never written.
\<close>

datatype fault = Starved | OutOfBounds int | Uninitialised int

type_synonym 'a result = "fault + 'a"

named_theorems cmod_simps \<open>facts turning C remainders into HOL remainders\<close>
named_theorems frame_simps \<open>what a primitive leaves unchanged\<close>

section \<open>Checked array access\<close>

text \<open>
  \<open>a[i]\<close> of a C array \<open>a\<close>: an index outside \<open>[0, length a)\<close> is a fault,
  never a silent unspecified value.
\<close>

definition c_read :: "'a list \<Rightarrow> int \<Rightarrow> 'a result" where
  "c_read xs i = (if 0 \<le> i \<and> i < int (length xs) then Inr (xs ! nat i) else Inl (OutOfBounds i))"

definition c_write :: "'a list \<Rightarrow> int \<Rightarrow> 'a \<Rightarrow> 'a list result" where
  "c_write xs i v = (if 0 \<le> i \<and> i < int (length xs) then Inr (xs[nat i := v]) else Inl (OutOfBounds i))"

lemma c_read_Inr_iff:
  "c_read xs i = Inr v \<longleftrightarrow> 0 \<le> i \<and> i < int (length xs) \<and> v = xs ! nat i"
  by (auto simp: c_read_def)

lemma c_write_Inr_iff:
  "c_write xs i v = Inr ys \<longleftrightarrow> 0 \<le> i \<and> i < int (length xs) \<and> ys = xs[nat i := v]"
  by (auto simp: c_write_def)

lemma c_read_in_range [simp]:
  "0 \<le> i \<Longrightarrow> i < int (length xs) \<Longrightarrow> c_read xs i = Inr (xs ! nat i)"
  by (simp add: c_read_def)

lemma c_write_in_range [simp]:
  "0 \<le> i \<Longrightarrow> i < int (length xs) \<Longrightarrow> c_write xs i v = Inr (xs[nat i := v])"
  by (simp add: c_write_def)

lemma c_read_out_of_range:
  "\<not> (0 \<le> i \<and> i < int (length xs)) \<Longrightarrow> c_read xs i = Inl (OutOfBounds i)"
  by (simp add: c_read_def)

lemma c_write_out_of_range:
  "\<not> (0 \<le> i \<and> i < int (length xs)) \<Longrightarrow> c_write xs i v = Inl (OutOfBounds i)"
  by (simp add: c_write_def)

section \<open>Counters\<close>

text \<open>A C \<open>int\<close> counter that moved from \<open>a\<close> to \<open>b\<close> counts \<open>nat (b - a)\<close> events.\<close>

lemma replicate_counter_step:
  fixes a b :: int
  assumes "a + 1 \<le> b"
  shows "x # replicate (nat (b - (a + 1))) x = replicate (nat (b - a)) x"
proof -
  from assms have "nat (b - a) = Suc (nat (b - (a + 1)))" by arith
  then show ?thesis by simp
qed

lemma replicate_Cons_merge:
  "replicate a x @ x # replicate b x = x # replicate (a + b) x"
  by (induction a) auto

lemma remdups_adj_replicate_append:
  assumes "ys = [] \<or> hd ys \<noteq> x"
  shows "remdups_adj (replicate (Suc k) x @ ys) = x # remdups_adj ys"
proof (induction k)
  case 0
  from assms show ?case by (cases ys) (auto simp: remdups_adj_Cons')
next
  case (Suc k)
  then show ?case by simp
qed

text \<open>Clearing one flag of a flag array removes at most one set flag.\<close>

lemma count_set_clear:
  "i < length xs \<Longrightarrow> length (filter id (xs[i := False])) + (if xs ! i then 1 else 0) = length (filter id xs)"
proof (induction xs arbitrary: i)
  case Nil
  then show ?case by simp
next
  case (Cons x xs)
  then show ?case by (cases i) auto
qed

section \<open>C integers\<close>

text \<open>
  C's \<open>int\<close> on the target is 32 bits wide.  The model computes with unbounded
  \<open>int\<close>; it agrees with C exactly where every intermediate value of an expression lies
  in \<open>[INT_MIN, INT_MAX]\<close>, since signed overflow is undefined behaviour in C.
\<close>

definition INT_MIN :: int where
  "INT_MIN = - (2 ^ 31)"

definition INT_MAX :: int where
  "INT_MAX = 2 ^ 31 - 1"

definition c_int :: "int \<Rightarrow> bool" where
  "c_int x \<longleftrightarrow> INT_MIN \<le> x \<and> x \<le> INT_MAX"

section \<open>C remainder\<close>

text \<open>
  C's \<open>%\<close> truncates towards zero: it is \<open>smod\<close> of
  \<^verbatim>\<open>HOL-Library.Signed_Division\<close>, which agrees with HOL's \<open>mod\<close> on a
  non-negative dividend and a positive divisor, and is negative on a negative dividend.
\<close>

lemma smod_eq_mod_nonneg [cmod_simps, simp]:
  fixes a b :: int
  assumes "0 \<le> a" and "0 < b"
  shows "a smod b = a mod b"
  using assms by (simp add: smod_int_alt_def abs_of_nonneg abs_of_pos sgn_if)

lemma smod_neg:
  fixes a b :: int
  assumes "a < 0" and "0 < b"
  shows "a smod b = - ((- a) mod b)"
  using assms by (simp add: smod_int_alt_def sgn_if)

section \<open>Modular windows\<close>

text \<open>
  Two integers in a window shorter than the modulus are equal when their
  residues are: the fact behind every "distinguishable sequence number" argument.
\<close>

lemma mod_window_inj:
  fixes x y a R :: int
  assumes "a \<le> x" "x < a + R" "a \<le> y" "y < a + R" and "x mod R = y mod R"
  shows "x = y"
proof -
  from assms(5) have dvd: "R dvd (x - y)" by (simp add: mod_eq_dvd_iff)
  have lt: "\<bar>x - y\<bar> < \<bar>R\<bar>" using assms(1-4) by arith
  show ?thesis
  proof (rule ccontr)
    assume "x \<noteq> y"
    then have "\<bar>R\<bar> \<le> \<bar>x - y\<bar>" using dvd by (simp add: dvd_imp_le_int)
    with lt show False by simp
  qed
qed

lemma mod_shift_down [cmod_simps]:
  fixes d R :: int
  shows "0 \<le> d + R \<Longrightarrow> d < 0 \<Longrightarrow> d mod R = d + R"
  by (metis mod_add_self2 mod_pos_pos_trivial add_less_same_cancel2)

lemma slot_in_array:
  fixes x R :: int
  assumes "0 < R" and "length xs = nat R"
  shows "0 \<le> x mod R" "x mod R < int (length xs)" "nat (x mod R) < length xs"
  using assms pos_mod_bound [of R x] by simp_all

lemma mod_diff_mods [cmod_simps]:
  fixes x y k R :: int
  shows "(x mod R - y mod R + k) mod R = (x - y + k) mod R"
  by (metis mod_add_left_eq mod_diff_eq)

lemma mod_plus_modulus [cmod_simps]:
  fixes x R :: int
  shows "(x + R) mod R = x mod R"
  by simp

end
