(* ===== verification/Transport.thy ===== *)
theory Transport
  imports Prelude
begin

text \<open>
  The collaborators of \<^verbatim>\<open>src/udp.cpp\<close> whose code is not in the repository:
  the \<^verbatim>\<open>UdpSocket\<close> class (\<^verbatim>\<open>sendTo\<close>, \<^verbatim>\<open>pollRecvFrom\<close>,
  \<^verbatim>\<open>recvFrom\<close>, \<^verbatim>\<open>ackTo\<close>) and the \<^verbatim>\<open>Timer\<close> class
  (\<^verbatim>\<open>start\<close>, \<^verbatim>\<open>lap\<close>), modelled from the specification (section 6).
  The world is a script: the answers the socket and the clock will give, consumed in
  order, and the datagrams sent so far.  An operation whose script is exhausted
  returns \<open>Starved\<close>.  Only the first word of a datagram is modelled, the
  sequence number; the payload is opaque to every function of the source.
\<close>

section \<open>Datagrams sent\<close>

datatype out_event =
    SendTo int        \<comment> \<open>\<^verbatim>\<open>sendTo\<close> of a frame whose first word is the given int\<close>
  | SendFromAddr int  \<comment> \<open>\<^verbatim>\<open>sendTo\<close> of the bytes at an int cast to a pointer\<close>
  | AckTo int         \<comment> \<open>\<^verbatim>\<open>ackTo\<close> of a one-word acknowledgment\<close>

section \<open>The environment script\<close>

record env =
  polls :: "int list"          \<comment> \<open>successive results of \<^verbatim>\<open>pollRecvFrom\<close>\<close>
  inbox :: "int list"          \<comment> \<open>first words of the datagrams \<^verbatim>\<open>recvFrom\<close> consumes\<close>
  clock :: "int list"          \<comment> \<open>successive clock readings of the \<^verbatim>\<open>Timer\<close>\<close>
  trace :: "out_event list"    \<comment> \<open>datagrams sent, oldest first\<close>

definition pollRecvFrom :: "env \<Rightarrow> (int \<times> env) result" where
  "pollRecvFrom e = (case polls e of [] \<Rightarrow> Inl Starved | p # ps \<Rightarrow> Inr (p, e\<lparr>polls := ps\<rparr>))"

definition recvFrom :: "env \<Rightarrow> (int \<times> env) result" where
  "recvFrom e = (case inbox e of [] \<Rightarrow> Inl Starved | m # ms \<Rightarrow> Inr (m, e\<lparr>inbox := ms\<rparr>))"

definition sendTo :: "int \<Rightarrow> env \<Rightarrow> env" where
  "sendTo m e = e\<lparr>trace := trace e @ [SendTo m]\<rparr>"

definition sendFromAddr :: "int \<Rightarrow> env \<Rightarrow> env" where
  "sendFromAddr a e = e\<lparr>trace := trace e @ [SendFromAddr a]\<rparr>"

definition ackTo :: "int \<Rightarrow> env \<Rightarrow> env" where
  "ackTo m e = e\<lparr>trace := trace e @ [AckTo m]\<rparr>"

section \<open>The timer\<close>

text \<open>
  A \<^verbatim>\<open>Timer\<close> object holds the clock reading of its last \<^verbatim>\<open>start\<close>;
  \<^verbatim>\<open>lap\<close> reads the clock again and returns the time elapsed since.  The model
  passes the start reading as the timer's state.
\<close>

definition MAX_TIME :: int where
  "MAX_TIME = 1500"

definition timer_start :: "env \<Rightarrow> (int \<times> env) result" where
  "timer_start e = (case clock e of [] \<Rightarrow> Inl Starved | t # ts \<Rightarrow> Inr (t, e\<lparr>clock := ts\<rparr>))"

definition timer_lap :: "int \<Rightarrow> env \<Rightarrow> (int \<times> env) result" where
  "timer_lap t0 e = (case clock e of [] \<Rightarrow> Inl Starved | t # ts \<Rightarrow> Inr (t - t0, e\<lparr>clock := ts\<rparr>))"

section \<open>What the primitives consume and produce\<close>

text \<open>
  \<open>consumes e e'\<close>: \<open>e'\<close> is \<open>e\<close> with a prefix of each input script
  consumed and datagrams appended to the trace.  Every function of the source moves
  the world forward in this sense; the trace lemmas of the components are stated
  over the appended part.
\<close>

definition consumes :: "env \<Rightarrow> env \<Rightarrow> bool" where
  "consumes e e' \<longleftrightarrow>
     (\<exists>xs. polls e = xs @ polls e') \<and> (\<exists>xs. inbox e = xs @ inbox e') \<and>
     (\<exists>xs. clock e = xs @ clock e') \<and> (\<exists>out. trace e' = trace e @ out)"

lemma consumes_refl [simp, intro]: "consumes e e"
  by (auto simp: consumes_def)

lemma consumes_trans [trans]: "consumes e1 e2 \<Longrightarrow> consumes e2 e3 \<Longrightarrow> consumes e1 e3"
  unfolding consumes_def by (metis append.assoc)

lemma pollRecvFrom_Inr:
  "pollRecvFrom e = Inr (p, e') \<longleftrightarrow> polls e = p # polls e' \<and> e' = e\<lparr>polls := polls e'\<rparr>"
  by (cases "polls e") (auto simp: pollRecvFrom_def)

lemma recvFrom_Inr:
  "recvFrom e = Inr (m, e') \<longleftrightarrow> inbox e = m # inbox e' \<and> e' = e\<lparr>inbox := inbox e'\<rparr>"
  by (cases "inbox e") (auto simp: recvFrom_def)

lemma timer_start_Inr:
  "timer_start e = Inr (t, e') \<longleftrightarrow> clock e = t # clock e' \<and> e' = e\<lparr>clock := clock e'\<rparr>"
  by (cases "clock e") (auto simp: timer_start_def)

lemma timer_lap_Inr:
  "timer_lap t0 e = Inr (d, e') \<longleftrightarrow>
     (\<exists>t. clock e = t # clock e' \<and> d = t - t0) \<and> e' = e\<lparr>clock := clock e'\<rparr>"
  by (cases "clock e") (auto simp: timer_lap_def)

lemma consumes_pollRecvFrom: "pollRecvFrom e = Inr (p, e') \<Longrightarrow> consumes e e'"
  by (cases "polls e") (auto simp: pollRecvFrom_def consumes_def)

lemma consumes_recvFrom: "recvFrom e = Inr (m, e') \<Longrightarrow> consumes e e'"
  by (cases "inbox e") (auto simp: recvFrom_def consumes_def)

lemma consumes_timer_start: "timer_start e = Inr (t, e') \<Longrightarrow> consumes e e'"
  by (cases "clock e") (auto simp: timer_start_def consumes_def)

lemma consumes_timer_lap: "timer_lap t0 e = Inr (d, e') \<Longrightarrow> consumes e e'"
  by (cases "clock e") (auto simp: timer_lap_def consumes_def)

lemma consumes_sendTo [simp]: "consumes e (sendTo m e)"
  and consumes_sendFromAddr [simp]: "consumes e (sendFromAddr a e)"
  and consumes_ackTo [simp]: "consumes e (ackTo m e)"
  by (auto simp: consumes_def sendTo_def sendFromAddr_def ackTo_def)

text \<open>What each input primitive does to the world, as equations to substitute.\<close>

lemma pollRecvFrom_effect:
  "pollRecvFrom e = Inr (p, e') \<Longrightarrow>
     polls e = p # polls e' \<and> inbox e' = inbox e \<and> clock e' = clock e \<and> trace e' = trace e"
  by (auto simp: pollRecvFrom_def split: list.splits)

lemma recvFrom_effect:
  "recvFrom e = Inr (m, e') \<Longrightarrow>
     inbox e = m # inbox e' \<and> polls e' = polls e \<and> clock e' = clock e \<and> trace e' = trace e"
  by (auto simp: recvFrom_def split: list.splits)

lemma timer_start_effect:
  "timer_start e = Inr (t, e') \<Longrightarrow>
     clock e = t # clock e' \<and> polls e' = polls e \<and> inbox e' = inbox e \<and> trace e' = trace e"
  by (auto simp: timer_start_def split: list.splits)

lemma timer_lap_effect:
  "timer_lap t0 e = Inr (d, e') \<Longrightarrow>
     (\<exists>t. clock e = t # clock e' \<and> d = t - t0) \<and> polls e' = polls e \<and> inbox e' = inbox e \<and>
     trace e' = trace e"
  by (auto simp: timer_lap_def split: list.splits)

lemmas io_effects = pollRecvFrom_effect recvFrom_effect timer_start_effect timer_lap_effect

lemmas consumes_prims =
  consumes_pollRecvFrom consumes_recvFrom consumes_timer_start consumes_timer_lap

lemma polls_frame [frame_simps, simp]:
  "polls (sendTo m e) = polls e" "polls (sendFromAddr a e) = polls e" "polls (ackTo m e) = polls e"
  by (simp_all add: sendTo_def sendFromAddr_def ackTo_def)

lemma inbox_frame [frame_simps, simp]:
  "inbox (sendTo m e) = inbox e" "inbox (sendFromAddr a e) = inbox e" "inbox (ackTo m e) = inbox e"
  by (simp_all add: sendTo_def sendFromAddr_def ackTo_def)

lemma clock_frame [frame_simps, simp]:
  "clock (sendTo m e) = clock e" "clock (sendFromAddr a e) = clock e" "clock (ackTo m e) = clock e"
  by (simp_all add: sendTo_def sendFromAddr_def ackTo_def)

lemma trace_sends [simp]:
  "trace (sendTo m e) = trace e @ [SendTo m]"
  "trace (sendFromAddr a e) = trace e @ [SendFromAddr a]"
  "trace (ackTo m e) = trace e @ [AckTo m]"
  by (simp_all add: sendTo_def sendFromAddr_def ackTo_def)

text \<open>Measures for the loops: each poll, datagram or clock reading is used once.\<close>

lemma consumes_polls_le: "consumes e e' \<Longrightarrow> length (polls e') \<le> length (polls e)"
  and consumes_inbox_le: "consumes e e' \<Longrightarrow> length (inbox e') \<le> length (inbox e)"
  and consumes_clock_le: "consumes e e' \<Longrightarrow> length (clock e') \<le> length (clock e)"
  by (auto simp: consumes_def)

lemma pollRecvFrom_shrinks: "pollRecvFrom e = Inr (p, e') \<Longrightarrow> length (polls e') < length (polls e)"
  by (auto simp: pollRecvFrom_def split: list.splits)

lemma recvFrom_shrinks: "recvFrom e = Inr (m, e') \<Longrightarrow> length (inbox e') < length (inbox e)"
  by (auto simp: recvFrom_def split: list.splits)

lemma polls_unchanged:
  "recvFrom e = Inr (m, e') \<Longrightarrow> polls e' = polls e"
  "timer_start e = Inr (t, e') \<Longrightarrow> polls e' = polls e"
  "timer_lap t0 e = Inr (d, e') \<Longrightarrow> polls e' = polls e"
  by (auto simp: recvFrom_def timer_start_def timer_lap_def split: list.splits)

lemma inbox_unchanged:
  "pollRecvFrom e = Inr (p, e') \<Longrightarrow> inbox e' = inbox e"
  "timer_start e = Inr (t, e') \<Longrightarrow> inbox e' = inbox e"
  "timer_lap t0 e = Inr (d, e') \<Longrightarrow> inbox e' = inbox e"
  by (auto simp: pollRecvFrom_def timer_start_def timer_lap_def split: list.splits)

lemma trace_unchanged:
  "pollRecvFrom e = Inr (p, e') \<Longrightarrow> trace e' = trace e"
  "recvFrom e = Inr (m, e') \<Longrightarrow> trace e' = trace e"
  "timer_start e = Inr (t, e') \<Longrightarrow> trace e' = trace e"
  "timer_lap t0 e = Inr (d, e') \<Longrightarrow> trace e' = trace e"
  by (auto simp: pollRecvFrom_def recvFrom_def timer_start_def timer_lap_def split: list.splits)

end
