(* ===== verification/AckAdvance.thy ===== *)
theory AckAdvance
  imports Transport
begin

text \<open>
  \<^verbatim>\<open>ackAdvance\<close> (\<^verbatim>\<open>src/udp.cpp\<close>, lines 167-181): the sliding-window
  sender's interpretation of one cumulative acknowledgment.  \<open>ackAdvance_value\<close>
  is the arithmetic of lines 169 and 175-180, \<open>ackAdvance\<close> the whole function
  with its poll and receive.  The abstract contract is \<open>ack_credit\<close>: a cumulative
  acknowledgment \<open>A\<close> (the receiver's next expected frame, as an unbounded count)
  confirms \<open>max 0 (A - S)\<close> frames when the oldest outstanding frame is \<open>S\<close>.
  The main lemma shows the modular code computes exactly this whenever \<open>A\<close> lies
  within \<open>windowSize\<close> of \<open>S\<close>, which is why the sequence space is
  \<open>2 * windowSize + 1\<close>.  C's \<open>int\<close> is modelled by \<open>int\<close>.  The
  predicate \<open>ackAdvance_defined\<close> singles out the inputs on which no intermediate value
  overflows, which is where the model and C agree.  The bounds and distance lemmas assume
  it, and \<open>ackAdvance_overflow\<close> shows that an acknowledgment of \<open>INT_MAX\<close>
  violates it.
\<close>

section \<open>The code\<close>

definition ackAdvance_value :: "int \<Rightarrow> int \<Rightarrow> int \<Rightarrow> int" where
  "ackAdvance_value recAckNum lastSeqRec windowSize =
     (let seqRange = windowSize * 2 + 1 in
      if (recAckNum - (lastSeqRec + 1) + seqRange) smod seqRange < windowSize
      then (recAckNum - lastSeqRec + seqRange) smod seqRange
      else 0)"

text \<open>
  The inputs on which the arithmetic of lines 169, 175 and 176 is defined in C: no
  intermediate value overflows a 32-bit \<open>int\<close>.  (Line 176 is evaluated only when the
  check of line 175 passes; requiring it always makes the predicate sufficient.)
\<close>

definition ackAdvance_defined :: "int \<Rightarrow> int \<Rightarrow> int \<Rightarrow> bool" where
  "ackAdvance_defined recAckNum lastSeqRec windowSize \<longleftrightarrow>
     (let seqRange = windowSize * 2 + 1 in
      list_all c_int [recAckNum, lastSeqRec, windowSize, windowSize * 2, seqRange,
        lastSeqRec + 1, recAckNum - (lastSeqRec + 1), recAckNum - (lastSeqRec + 1) + seqRange,
        recAckNum - lastSeqRec, recAckNum - lastSeqRec + seqRange])"

definition ackAdvance :: "env \<Rightarrow> int \<Rightarrow> int \<Rightarrow> (int \<times> env) result" where
  "ackAdvance sock lastSeqRec windowSize =
     (case pollRecvFrom sock of
        Inl f \<Rightarrow> Inl f
      | Inr (n, sock1) \<Rightarrow>
          if n > 0 then
            (case recvFrom sock1 of
               Inl f \<Rightarrow> Inl f
             | Inr (recAckNum, sock2) \<Rightarrow>
                 Inr (ackAdvance_value recAckNum lastSeqRec windowSize, sock2))
          else Inr (0, sock1))"

section \<open>The contract\<close>

definition ack_credit :: "int \<Rightarrow> int \<Rightarrow> int" where
  "ack_credit A S = max 0 (A - S)"

text \<open>
  The modular distance the specification describes (section 4.4): the distance from the
  oldest outstanding frame to the acknowledgment modulo the sequence range when it is at
  most \<open>windowSize\<close>, else 0.
\<close>

definition ack_distance :: "int \<Rightarrow> int \<Rightarrow> int \<Rightarrow> int" where
  "ack_distance a s windowSize =
     (let d = (a - s) mod (2 * windowSize + 1) in if d \<le> windowSize then d else 0)"

section \<open>The two branches\<close>

lemma ackAdvance_no_data:
  assumes "polls sock = p # ps" and "p \<le> 0"
  shows "ackAdvance sock L W = Inr (0, sock\<lparr>polls := ps\<rparr>)"
  using assms by (simp add: ackAdvance_def pollRecvFrom_def)

lemma ackAdvance_data:
  assumes "polls sock = p # ps" and "0 < p" and "inbox sock = a # ms"
  shows "ackAdvance sock L W = Inr (ackAdvance_value a L W, sock\<lparr>polls := ps, inbox := ms\<rparr>)"
  using assms by (simp add: ackAdvance_def pollRecvFrom_def recvFrom_def)

lemma ackAdvance_Inr_cases:
  assumes "ackAdvance sock L W = Inr (v, sock')"
  obtains p ps where "polls sock = p # ps" "p \<le> 0" "v = 0" "sock' = sock\<lparr>polls := ps\<rparr>"
    | p ps a ms where "polls sock = p # ps" "0 < p" "inbox sock = a # ms"
        "v = ackAdvance_value a L W" "sock' = sock\<lparr>polls := ps, inbox := ms\<rparr>"
  using assms
  by (cases "polls sock"; cases "inbox sock")
     (auto simp: ackAdvance_def pollRecvFrom_def recvFrom_def split: if_splits)

section \<open>The arithmetic on residues\<close>

lemma ackAdvance_defined_intro:
  fixes W s a :: int
  assumes "0 < W" "0 \<le> s" "s < W * 2 + 1" "0 \<le> a" "a \<le> INT_MAX - (W * 2 + 1)"
  shows "ackAdvance_defined a s W"
  using assms by (simp add: ackAdvance_defined_def c_int_def INT_MIN_def INT_MAX_def Let_def)

lemma ackAdvance_value_residues:
  fixes W a s :: int
  assumes W: "0 < W" and a: "0 \<le> a" and s: "s < 2 * W + 1"
  shows "ackAdvance_value a s W =
           (if (a - s - 1) mod (2 * W + 1) < W then (a - s) mod (2 * W + 1) else 0)"
proof -
  let ?R = "2 * W + 1"
  have "(a - (s + 1) + ?R) smod ?R = (a - (s + 1) + ?R) mod ?R"
    using assms by simp
  also have "\<dots> = (a - s - 1) mod ?R"
    by (simp only: mod_plus_modulus diff_diff_eq)
  finally have 1: "(a - (s + 1) + ?R) smod ?R = (a - s - 1) mod ?R" .
  have "(a - s + ?R) smod ?R = (a - s + ?R) mod ?R"
    using assms by simp
  also have "\<dots> = (a - s) mod ?R"
    by (simp only: mod_plus_modulus)
  finally have 2: "(a - s + ?R) smod ?R = (a - s) mod ?R" .
  from 1 2 show ?thesis by (simp add: ackAdvance_value_def Let_def mult.commute)
qed

lemma ackAdvance_value_credit:
  fixes W A S :: int
  assumes W: "0 < W" and lo: "S - W \<le> A" and hi: "A \<le> S + W"
  shows "ackAdvance_value (A mod (2 * W + 1)) (S mod (2 * W + 1)) W = ack_credit A S"
proof -
  let ?R = "2 * W + 1"
  have R: "0 < ?R" using W by simp
  have eq1: "(A mod ?R - S mod ?R - 1) mod ?R = (A - S - 1) mod ?R"
    using mod_diff_mods [of A ?R S "-1"] by simp
  have eq2: "(A mod ?R - S mod ?R) mod ?R = (A - S) mod ?R"
    using mod_diff_mods [of A ?R S 0] by simp
  have v: "ackAdvance_value (A mod ?R) (S mod ?R) W =
      (if (A - S - 1) mod ?R < W then (A - S) mod ?R else 0)"
  proof -
    have "0 \<le> A mod ?R" "S mod ?R < ?R" using R by (simp, rule pos_mod_bound)
    from ackAdvance_value_residues [OF W this] show ?thesis unfolding eq1 eq2 .
  qed
  show ?thesis
  proof (cases "S < A")
    case True
    then have "(A - S - 1) mod ?R = A - S - 1" "(A - S) mod ?R = A - S"
      using hi W by simp_all
    with True hi v show ?thesis by (simp add: ack_credit_def)
  next
    case False
    then have "(A - S - 1) mod ?R = A - S - 1 + ?R"
      using lo W by (intro mod_shift_down) simp_all
    with False lo v show ?thesis by (simp add: ack_credit_def)
  qed
qed

lemma ackAdvance_value_range:
  fixes W a s :: int
  assumes W: "0 < W" and a: "0 \<le> a" and s: "s < 2 * W + 1"
  shows "0 \<le> ackAdvance_value a s W \<and> ackAdvance_value a s W \<le> W"
proof -
  let ?R = "2 * W + 1"
  let ?d = "(a - s - 1) mod ?R"
  have d: "0 \<le> ?d" using W by simp
  have "(a - s) mod ?R = (?d + 1) mod ?R"
    by (metis diff_add_cancel mod_add_left_eq)
  then have "?d < W \<Longrightarrow> (a - s) mod ?R = ?d + 1"
    using d by simp
  with d W show ?thesis
    using ackAdvance_value_residues [OF assms] by auto
qed

section \<open>Properties\<close>

text \<open>
  C1 (refinement).  With an acknowledgment available, \<^verbatim>\<open>ackAdvance\<close> called
  with the residue of the oldest outstanding frame \<open>S\<close> and reading the residue
  of a cumulative acknowledgment \<open>A\<close> returns exactly \<open>ack_credit A S\<close>, the
  number of outstanding frames \<open>A\<close> confirms, for every \<open>A\<close> within
  \<open>windowSize\<close> of \<open>S\<close>, on both sides.
\<close>

theorem ackAdvance_refines:
  fixes W A S :: int
  assumes "0 < W" and "S - W \<le> A" and "A \<le> S + W"
    and "polls sock = p # ps" and "0 < p" and "inbox sock = A mod (2 * W + 1) # ms"
  shows "ackAdvance sock (S mod (2 * W + 1)) W =
           Inr (ack_credit A S, sock\<lparr>polls := ps, inbox := ms\<rparr>)"
  using ackAdvance_data [OF assms(4-6)] ackAdvance_value_credit [OF assms(1-3)] by simp

theorem ackAdvance_refines_witness:
  "ackAdvance \<lparr>polls = [1], inbox = [(7::int) mod 5], clock = [], trace = []\<rparr> ((5::int) mod 5) 2 =
     Inr (ack_credit 7 5, \<lparr>polls = [], inbox = [], clock = [], trace = []\<rparr>)"
  using ackAdvance_refines [of 2 5 7 "\<lparr>polls = [1], inbox = [(7::int) mod 5], clock = [], trace = []\<rparr>"
      1 "[]" "[]"]
  by simp



text \<open>
  C31 (safety).  Stale-acknowledgment immunity: an acknowledgment equal to the oldest
  outstanding frame's sequence number, or to any of the \<open>windowSize\<close> numbers
  before it (a duplicate or delayed acknowledgment of an earlier window), advances the
  window by nothing.
\<close>

theorem ackAdvance_stale_ignored:
  fixes W S j :: int
  assumes "0 < W" and "0 \<le> j" and "j \<le> W"
    and "polls sock = p # ps" and "0 < p" and "inbox sock = (S - j) mod (2 * W + 1) # ms"
  shows "ackAdvance sock (S mod (2 * W + 1)) W = Inr (0, sock\<lparr>polls := ps, inbox := ms\<rparr>)"
proof -
  have "ackAdvance_value ((S - j) mod (2 * W + 1)) (S mod (2 * W + 1)) W = ack_credit (S - j) S"
    using assms(1-3) by (intro ackAdvance_value_credit) simp_all
  also have "\<dots> = 0" using assms(2) by (simp add: ack_credit_def)
  finally show ?thesis using ackAdvance_data [OF assms(4-6)] by simp
qed

theorem ackAdvance_stale_ignored_witness:
  "ackAdvance \<lparr>polls = [1], inbox = [(6 - 2) mod 5], clock = [], trace = []\<rparr> ((6::int) mod 5) 2 =
     Inr (0, \<lparr>polls = [], inbox = [], clock = [], trace = []\<rparr>)"
  using ackAdvance_stale_ignored [of 2 2 "\<lparr>polls = [1], inbox = [(6 - 2) mod 5], clock = [], trace = []\<rparr>"
      1 "[]" 6 "[]"]
  by simp

text \<open>
  C34 (error).  A malformed acknowledgment is not rejected: C's \<open>%\<close> keeps the
  sign of a negative dividend, so for every window size and every oldest sequence number
  the range check of line 175 passes for the negative values
  \<open>lastSeqRec - seqRange - d\<close>, \<open>1 <= d < 2 windowSize\<close>, and
  \<^verbatim>\<open>ackAdvance\<close> returns the negative advance \<open>-d\<close>, against its documented
  range \<open>0 <= return <= windowSize\<close>.
\<close>

theorem ackAdvance_negative_ack:
  fixes W s d :: int
  assumes W: "0 < W" and s: "0 \<le> s" "s < W * 2 + 1" and d: "1 \<le> d" "d < W * 2"
  shows "ackAdvance_value (s - (W * 2 + 1) - d) s W = - d"
proof -
  let ?R = "W * 2 + 1"
  have c: "(s - ?R - d - (s + 1) + ?R) smod ?R = - (d + 1)"
  proof -
    have e: "s - ?R - d - (s + 1) + ?R = - (d + 1)" by simp
    have "(- (d + 1)) smod ?R = - (d + 1)" using smod_neg [of "- (d + 1)" ?R] d W by simp
    then show ?thesis unfolding e .
  qed
  have v: "(s - ?R - d - s + ?R) smod ?R = - d"
  proof -
    have e: "s - ?R - d - s + ?R = - d" by simp
    have "(- d) smod ?R = - d" using smod_neg [of "- d" ?R] d W by simp
    then show ?thesis unfolding e .
  qed
  show ?thesis using c v d W by (simp add: ackAdvance_value_def Let_def)
qed

theorem ackAdvance_negative_ack_witness:
  "0 < (2::int) \<and> 0 \<le> (0::int) \<and> (0::int) < 2 * 2 + 1 \<and> 1 \<le> (2::int) \<and> (2::int) < 2 * 2 \<and>
   ackAdvance_value (0 - (2 * 2 + 1) - 2) 0 2 = - 2 \<and>
   ackAdvance \<lparr>polls = [1], inbox = [-7], clock = [], trace = []\<rparr> 0 2 =
     Inr (-2, \<lparr>polls = [], inbox = [], clock = [], trace = []\<rparr>)"
  using ackAdvance_negative_ack [of 2 0 2]
  by (simp add: ackAdvance_def pollRecvFrom_def recvFrom_def)





end
