(* ===== verification/StopWait.thy ===== *)
theory StopWait
  imports Transport
begin

text \<open>
  The stop-and-wait pair of \<^verbatim>\<open>src/udp.cpp\<close>: \<^verbatim>\<open>clientStopWait\<close>
  (lines 33-61) and \<^verbatim>\<open>serverReliable\<close> (lines 73-82).  Each C loop is one
  function: \<open>sw_wait\<close> the polling loop of lines 46-53, \<open>sw_round\<close> the
  do-while of lines 42-57, \<open>sw_client\<close> the for loop of lines 39-58;
  \<open>sr_round\<close> the do-while of lines 76-80 and \<open>sr_loop\<close> the for loop of
  lines 75-81.  Every loop iteration consumes a poll answer or a datagram of the
  environment script, which is the termination measure.  The C parameter \<^verbatim>\<open>max\<close>
  is called \<open>msgMax\<close> (\<open>max\<close> is a HOL constant).
\<close>

unbundle bit_operations_syntax

section \<open>clientStopWait\<close>

function sw_wait :: "env \<Rightarrow> int \<Rightarrow> int \<Rightarrow> int \<Rightarrow> (int \<times> env) result" where
  "sw_wait sock msg0 t0 retrans =
     (case pollRecvFrom sock of
        Inl f \<Rightarrow> Inl f
      | Inr (n, sock1) \<Rightarrow>
          if n < 1 then
            (case timer_lap t0 sock1 of
               Inl f \<Rightarrow> Inl f
             | Inr (elapsed, sock2) \<Rightarrow>
                 if elapsed > MAX_TIME then
                   (case timer_start (sendTo msg0 sock2) of
                      Inl f \<Rightarrow> Inl f
                    | Inr (t1, sock3) \<Rightarrow> sw_wait sock3 msg0 t1 (retrans + 1))
                 else sw_wait sock2 msg0 t0 retrans)
          else Inr (retrans, sock1))"
  by pat_completeness auto
termination
  by (relation "measure (\<lambda>(sock, _, _, _). length (polls sock))")
     (auto dest: pollRecvFrom_shrinks simp: polls_unchanged)

declare sw_wait.simps [simp del]

lemma sw_wait_effect:
  assumes "sw_wait sock m t r = Inr (r', sock')"
  shows "inbox sock' = inbox sock \<and> r \<le> r' \<and>
         trace sock' = trace sock @ replicate (nat (r' - r)) (SendTo m) \<and>
         length (polls sock') < length (polls sock)"
  using assms
proof (induction sock m t r rule: sw_wait.induct)
  case (1 sock m t r)
  note ret = "1.prems" [unfolded sw_wait.simps [of sock m t r]]
  obtain n s1 where p: "pollRecvFrom sock = Inr (n, s1)"
    using ret by (auto split: sum.splits)
  note e1 = pollRecvFrom_effect [OF p]
  show ?case
  proof (cases "n < 1")
    case False
    with ret p have "r' = r" "sock' = s1" by simp_all
    with e1 show ?thesis by simp
  next
    case True
    obtain d s2 where lap: "timer_lap t s1 = Inr (d, s2)"
      using ret p True by (auto split: sum.splits)
    note e2 = timer_lap_effect [OF lap]
    show ?thesis
    proof (cases "MAX_TIME < d")
      case True
      obtain t1 s3 where st: "timer_start (sendTo m s2) = Inr (t1, s3)"
        using ret p \<open>n < 1\<close> lap True by (auto split: sum.splits)
      note e3 = timer_start_effect [OF st]
      from ret p \<open>n < 1\<close> lap True st have "sw_wait s3 m t1 (r + 1) = Inr (r', sock')" by simp
      from "1.IH"(1) [OF p refl \<open>n < 1\<close> lap refl True st refl this] e1 e2 e3
      show ?thesis by (simp add: replicate_counter_step)
    next
      case False
      from ret p \<open>n < 1\<close> lap False have "sw_wait s2 m t r = Inr (r', sock')" by simp
      from "1.IH"(2) [OF p refl \<open>n < 1\<close> lap refl False this] e1 e2
      show ?thesis by simp
    qed
  qed
qed

function sw_round :: "env \<Rightarrow> int \<Rightarrow> int \<Rightarrow> (int \<times> env) result" where
  "sw_round sock msg0 retrans =
     (case timer_start (sendTo msg0 sock) of
        Inl f \<Rightarrow> Inl f
      | Inr (t0, sock1) \<Rightarrow>
          (case sw_wait sock1 msg0 t0 retrans of
             Inl f \<Rightarrow> Inl f
           | Inr (retrans1, sock2) \<Rightarrow>
               (case recvFrom sock2 of
                  Inl f \<Rightarrow> Inl f
                | Inr (seqNum, sock3) \<Rightarrow>
                    let retrans2 = retrans1 + (seqNum XOR msg0) in
                    if seqNum \<noteq> msg0 then sw_round sock3 msg0 retrans2
                    else Inr (retrans2, sock3))))"
  by pat_completeness auto
termination
proof (relation "measure (\<lambda>(sock, _, _). length (polls sock))", goal_cases)
  case 1
  show ?case by simp
next
  case (2 sock msg0 retrans x2 t0 sock1 x2a retrans1 sock2 x2b seqNum sock3)
  then have "length (polls sock2) < length (polls sock1)"
    using sw_wait_effect by blast
  with 2 show ?case by (auto dest!: timer_start_effect recvFrom_effect)
qed

declare sw_round.simps [simp del]

lemma sw_round_effect:
  assumes "sw_round sock m r = Inr (r', sock')"
  shows "\<exists>wrong k. inbox sock = wrong @ m # inbox sock' \<and> (\<forall>w \<in> set wrong. w \<noteq> m) \<and>
           trace sock' = trace sock @ replicate (Suc (length wrong + k)) (SendTo m) \<and>
           r' = r + int k + sum_list (map (\<lambda>w. w XOR m) wrong)"
  using assms
proof (induction sock m r rule: sw_round.induct)
  case (1 sock m r)
  note ret = "1.prems" [unfolded sw_round.simps [of sock m r]]
  obtain t0 s1 where st: "timer_start (sendTo m sock) = Inr (t0, s1)"
    using ret by (auto split: sum.splits)
  obtain r1 s2 where w: "sw_wait s1 m t0 r = Inr (r1, s2)"
    using ret st by (auto split: sum.splits)
  obtain a s3 where rc: "recvFrom s2 = Inr (a, s3)"
    using ret st w by (auto split: sum.splits)
  note e1 = timer_start_effect [OF st] and e2 = sw_wait_effect [OF w] and e3 = recvFrom_effect [OF rc]
  have pre: "inbox sock = a # inbox s3"
    "trace s3 = trace sock @ SendTo m # replicate (nat (r1 - r)) (SendTo m)"
    using e1 e2 e3 by simp_all
  show ?case
  proof (cases "a = m")
    case True
    with ret st w rc have "r' = r1" "sock' = s3" by simp_all
    with pre e2 True show ?thesis
      by (intro exI [of _ "[]"] exI [of _ "nat (r1 - r)"]) simp
  next
    case False
    with ret st w rc have "sw_round s3 m (r1 + (a XOR m)) = Inr (r', sock')" by (simp add: Let_def)
    from "1.IH" [OF st refl w refl rc refl refl False this]
    obtain wrong k where ih: "inbox s3 = wrong @ m # inbox sock'" "\<forall>w \<in> set wrong. w \<noteq> m"
      "trace sock' = trace s3 @ replicate (Suc (length wrong + k)) (SendTo m)"
      "r' = r1 + (a XOR m) + int k + sum_list (map (\<lambda>w. w XOR m) wrong)"
      by blast
    have "replicate (nat (r1 - r)) (SendTo m) @ replicate (Suc (length wrong + k)) (SendTo m) =
          replicate (Suc (length wrong + (nat (r1 - r) + k))) (SendTo m)"
      by (simp add: replicate_Cons_merge ac_simps)
    with pre ih False e2 show ?thesis
      by (intro exI [of _ "a # wrong"] exI [of _ "nat (r1 - r) + k"]) auto
  qed
qed

function sw_client :: "env \<Rightarrow> int \<Rightarrow> int \<Rightarrow> int \<Rightarrow> (int \<times> env) result" where
  "sw_client sock msgMax msgNum retrans =
     (if msgNum < msgMax then
        (case sw_round sock (msgNum AND 1) retrans of
           Inl f \<Rightarrow> Inl f
         | Inr (retrans', sock') \<Rightarrow> sw_client sock' msgMax (msgNum + 1) retrans')
      else Inr (retrans, sock))"
  by pat_completeness auto
termination
  by (relation "measure (\<lambda>(_, msgMax, msgNum, _). nat (msgMax - msgNum))") auto

declare sw_client.simps [simp del]

definition clientStopWait :: "env \<Rightarrow> int \<Rightarrow> (int \<times> env) result" where
  "clientStopWait sock msgMax = sw_client sock msgMax 0 0"

section \<open>serverReliable\<close>

function sr_round :: "env \<Rightarrow> int \<Rightarrow> (int \<times> env) result" where
  "sr_round sock msgToAck =
     (case recvFrom sock of
        Inl f \<Rightarrow> Inl f
      | Inr (m0, sock1) \<Rightarrow>
          (let sock2 = ackTo m0 sock1 in
           if (of_bool (m0 \<noteq> msgToAck) AND 1) \<noteq> (0::int) then sr_round sock2 msgToAck
           else Inr (m0, sock2)))"
  by pat_completeness auto
termination
  by (relation "measure (\<lambda>(sock, _). length (inbox sock))") (auto dest!: recvFrom_effect)

declare sr_round.simps [simp del]

function sr_loop :: "env \<Rightarrow> int \<Rightarrow> int \<Rightarrow> env result" where
  "sr_loop sock msgMax msgToAck =
     (if msgToAck < msgMax then
        (case sr_round sock msgToAck of
           Inl f \<Rightarrow> Inl f
         | Inr (m0, sock') \<Rightarrow> sr_loop sock' msgMax (msgToAck + 1))
      else Inr sock)"
  by pat_completeness auto
termination
  by (relation "measure (\<lambda>(_, msgMax, msgToAck). nat (msgMax - msgToAck))") auto

declare sr_loop.simps [simp del]

definition serverReliable :: "env \<Rightarrow> int \<Rightarrow> env result" where
  "serverReliable sock msgMax = sr_loop sock msgMax 0"

lemma sr_guard_literal: "((of_bool (m \<noteq> k) AND 1) \<noteq> (0::int)) \<longleftrightarrow> m \<noteq> k"
  by simp

lemma sr_round_starves:
  "(\<forall>w \<in> set (inbox sock). w \<noteq> k) \<Longrightarrow> sr_round sock k = Inl Starved"
proof (induction "inbox sock" arbitrary: sock)
  case Nil
  then show ?case by (simp add: sr_round.simps [of sock k] recvFrom_def)
next
  case (Cons m ms)
  let ?s1 = "sock\<lparr>inbox := ms\<rparr>"
  have rc: "recvFrom sock = Inr (m, ?s1)" using Cons.hyps(2) [symmetric] by (simp add: recvFrom_def)
  have "m \<noteq> k" using Cons.prems Cons.hyps(2) [symmetric] by simp
  moreover have "sr_round (ackTo m ?s1) k = Inl Starved"
    using Cons.hyps(1) [of "ackTo m ?s1"] Cons.prems Cons.hyps(2) [symmetric] by simp
  ultimately show ?case by (simp add: sr_round.simps [of sock k] rc Let_def)
qed

lemma sr_round_effect:
  assumes "sr_round sock k = Inr (m, sock')"
  shows "\<exists>wrong. inbox sock = wrong @ k # inbox sock' \<and> m = k \<and> (\<forall>w \<in> set wrong. w \<noteq> k) \<and>
           trace sock' = trace sock @ map AckTo (wrong @ [k])"
  using assms
proof (induction sock k rule: sr_round.induct)
  case (1 sock k)
  note ret = "1.prems" [unfolded sr_round.simps [of sock k]]
  obtain a s1 where rc: "recvFrom sock = Inr (a, s1)"
    using ret by (auto split: sum.splits)
  note e1 = recvFrom_effect [OF rc]
  show ?case
  proof (cases "a = k")
    case True
    with ret rc have "m = k" "sock' = ackTo k s1" by (auto simp: Let_def)
    with e1 True show ?thesis by (intro exI [of _ "[]"]) simp
  next
    case False
    with ret rc have "sr_round (ackTo a s1) k = Inr (m, sock')" by (simp add: Let_def)
    from "1.IH" [OF rc refl refl _ this] False
    obtain wrong where "inbox (ackTo a s1) = wrong @ k # inbox sock'" "m = k"
      "\<forall>w \<in> set wrong. w \<noteq> k" "trace sock' = trace (ackTo a s1) @ map AckTo (wrong @ [k])"
      by auto
    with e1 False show ?thesis by (intro exI [of _ "a # wrong"]) simp
  qed
qed

lemma sr_round_fault: "sr_round sock k = Inl f \<Longrightarrow> f = Starved"
proof (induction sock k rule: sr_round.induct)
  case (1 sock k)
  then show ?case
    by (cases "recvFrom sock")
       (auto simp: sr_round.simps [of sock k] recvFrom_def Let_def split: list.splits if_splits)
qed

lemma bits_suffix:
  "\<forall>a \<in> set (xs @ ys). a = 0 \<or> a = (1::int) \<Longrightarrow> \<forall>a \<in> set ys. a = 0 \<or> a = 1"
  by simp

text \<open>
  C9 (error).  \<^verbatim>\<open>serverReliable\<close> never returns for three or more messages:
  line 80 parses as \<open>(message[0] != msgToAck) & 1\<close>, so the loop for message
  \<open>msgToAck = 2\<close> waits for a frame whose sequence bit is \<open>2\<close>, which the
  client (and any stream of 0/1 frames) never sends.  Over every finite stream of
  0/1 frames the server is still receiving when the stream ends.
\<close>

theorem serverReliable_never_completes:
  assumes big: "3 \<le> msgMax" and bits: "\<forall>a \<in> set (inbox sock). a = 0 \<or> a = 1"
  shows "serverReliable sock msgMax = Inl Starved"
proof -
  have stuck2: "sr_loop s msgMax 2 = Inl Starved" if "\<forall>a \<in> set (inbox s). a = 0 \<or> a = 1" for s
  proof -
    have "sr_round s 2 = Inl Starved" using that by (intro sr_round_starves) auto
    with big show ?thesis by (simp add: sr_loop.simps [of s msgMax 2])
  qed
  have stuck1: "sr_loop s msgMax 1 = Inl Starved" if b: "\<forall>a \<in> set (inbox s). a = 0 \<or> a = 1" for s
  proof (cases "sr_round s 1")
    case (Inl f)
    with big show ?thesis by (simp add: sr_loop.simps [of s msgMax 1] sr_round_fault)
  next
    case (Inr r)
    then obtain m s' where r: "sr_round s 1 = Inr (m, s')" by (cases r) auto
    from sr_round_effect [OF r] b have "\<forall>a \<in> set (inbox s'). a = 0 \<or> a = 1" by auto
    with big r stuck2 show ?thesis by (simp add: sr_loop.simps [of s msgMax 1])
  qed
  show ?thesis
  proof (cases "sr_round sock 0")
    case (Inl f)
    with big show ?thesis by (simp add: serverReliable_def sr_loop.simps [of sock msgMax 0] sr_round_fault)
  next
    case (Inr r)
    then obtain m s' where r: "sr_round sock 0 = Inr (m, s')" by (cases r) auto
    from sr_round_effect [OF r] bits have "\<forall>a \<in> set (inbox s'). a = 0 \<or> a = 1" by auto
    with big r stuck1 show ?thesis by (simp add: serverReliable_def sr_loop.simps [of sock msgMax 0])
  qed
qed

lemma and_one_bit: "(n::int) AND 1 = 0 \<or> n AND 1 = 1"
  by (simp add: and_one_eq) presburger

lemma and_one_succ: "((n::int) + 1) AND 1 \<noteq> n AND 1"
  by (simp add: and_one_eq) presburger

lemma xor_wrong_bits:
  assumes "m = 0 \<or> m = (1::int)" and "\<forall>w \<in> set ws. (w = 0 \<or> w = 1) \<and> w \<noteq> m"
  shows "sum_list (map (\<lambda>w. w XOR m) ws) = int (length ws)"
  using assms by (induction ws) auto

lemma sw_client_sends:
  assumes "sw_client sock msgMax n r = Inr (r', sock')" and "n \<le> msgMax"
    and "\<forall>a \<in> set (inbox sock). a = 0 \<or> a = 1"
  shows "\<exists>bits. trace sock' = trace sock @ map SendTo bits \<and>
           remdups_adj bits = map (\<lambda>j. (n + int j) AND 1) [0..<nat (msgMax - n)] \<and>
           int (length bits) = msgMax - n + (r' - r) \<and> (bits = [] \<or> hd bits = n AND 1)"
  using assms
proof (induction sock msgMax n r rule: sw_client.induct)
  case (1 sock msgMax n r)
  note ret = "1.prems"(1) [unfolded sw_client.simps [of sock msgMax n r]]
  show ?case
  proof (cases "n < msgMax")
    case False
    with ret "1.prems"(2) show ?thesis by (intro exI [of _ "[]"]) auto
  next
    case True
    let ?m = "n AND 1"
    obtain r1 s1 where rd: "sw_round sock ?m r = Inr (r1, s1)"
      using ret True by (auto split: sum.splits)
    with ret True have rest: "sw_client s1 msgMax (n + 1) r1 = Inr (r', sock')" by simp
    obtain wrong k where w: "inbox sock = wrong @ ?m # inbox s1" "\<forall>w \<in> set wrong. w \<noteq> ?m"
      "trace s1 = trace sock @ replicate (Suc (length wrong + k)) (SendTo ?m)"
      "r1 = r + int k + sum_list (map (\<lambda>w. w XOR ?m) wrong)"
      using sw_round_effect [OF rd] by blast
    have bits1: "\<forall>a \<in> set (inbox s1). a = 0 \<or> a = 1" using "1.prems"(3) w(1) by simp
    have wb: "\<forall>w \<in> set wrong. (w = 0 \<or> w = 1) \<and> w \<noteq> ?m" using "1.prems"(3) w(1,2) by auto
    have r1: "r1 = r + int k + int (length wrong)"
      using w(4) xor_wrong_bits [OF and_one_bit wb] by simp
    from "1.IH" [OF True rd refl rest _ bits1] True
    obtain bits where b: "trace sock' = trace s1 @ map SendTo bits"
      "remdups_adj bits = map (\<lambda>j. (n + 1 + int j) AND 1) [0..<nat (msgMax - (n + 1))]"
      "int (length bits) = msgMax - (n + 1) + (r' - r1)" "bits = [] \<or> hd bits = (n + 1) AND 1"
      by auto
    let ?bits = "replicate (Suc (length wrong + k)) ?m @ bits"
    have hd: "bits = [] \<or> hd bits \<noteq> ?m" using b(4) and_one_succ [of n] by auto
    have "remdups_adj ?bits = ?m # remdups_adj bits"
      by (rule remdups_adj_replicate_append [OF hd])
    also have "\<dots> = map (\<lambda>j. (n + int j) AND 1) [0..<nat (msgMax - n)]"
    proof -
      have "nat (msgMax - n) = Suc (nat (msgMax - (n + 1)))" using True by arith
      then show ?thesis by (simp only: map_upt_Suc) (simp add: b(2) ac_simps)
    qed
    finally show ?thesis
      using w(3) b(1,3) r1 by (intro exI [of _ ?bits]) auto
  qed
qed

text \<open>
  C10 (functional).  When \<^verbatim>\<open>clientStopWait\<close> returns and every acknowledgment it
  read was a bit, the frames it sent are, in order, non-empty runs of the sequence bits
  \<open>0, 1, 0, 1, ...\<close>, one run per message, and their number is \<open>msgMax\<close>
  plus the returned retransmission count: the count is exactly the number of frames
  sent more than once.
\<close>

theorem clientStopWait_sends:
  assumes "clientStopWait sock msgMax = Inr (retrans, sock')" and "0 \<le> msgMax"
    and "\<forall>a \<in> set (inbox sock). a = 0 \<or> a = 1"
  shows "\<exists>bits. trace sock' = trace sock @ map SendTo bits \<and>
           remdups_adj bits = map (\<lambda>j. int j AND 1) [0..<nat msgMax] \<and>
           int (length bits) = msgMax + retrans"
  using sw_client_sends [OF assms(1) [unfolded clientStopWait_def] assms(2,3)] by auto

lemma sw_round_prompt:
  assumes "polls sock = p # ps" "1 \<le> p" "clock sock = c # cs" "inbox sock = m # ms"
  shows "sw_round sock m r =
           Inr (r, sock\<lparr>polls := ps, inbox := ms, clock := cs, trace := trace sock @ [SendTo m]\<rparr>)"
  using assms
  by (simp add: sw_round.simps [of sock m r] sw_wait.simps timer_start_def pollRecvFrom_def
      recvFrom_def sendTo_def)

lemma sw_client_prompt:
  "sw_client \<lparr>polls = replicate k 1 @ ps, inbox = map (\<lambda>j. (n + int j) AND 1) [0..<k] @ ms,
              clock = replicate k c @ cs, trace = tr\<rparr> (n + int k) n r =
   Inr (r, \<lparr>polls = ps, inbox = ms, clock = cs, trace = tr @ map (\<lambda>j. SendTo ((n + int j) AND 1)) [0..<k]\<rparr>)"
proof (induction k arbitrary: n tr)
  case 0
  then show ?case by (simp add: sw_client.simps)
next
  case (Suc k)
  let ?s = "\<lparr>polls = replicate (Suc k) 1 @ ps, inbox = map (\<lambda>j. (n + int j) AND 1) [0..<Suc k] @ ms,
              clock = replicate (Suc k) c @ cs, trace = tr\<rparr>"
  have inb: "map (\<lambda>j. (n + int j) AND 1) [0..<Suc k] = (n AND 1) # map (\<lambda>j. (n + 1 + int j) AND 1) [0..<k]"
    by (simp only: map_upt_Suc) (simp add: ac_simps)
  have snd: "map (\<lambda>j. SendTo ((n + int j) AND 1)) [0..<Suc k] =
             SendTo (n AND 1) # map (\<lambda>j. SendTo ((n + 1 + int j) AND 1)) [0..<k]"
    by (simp only: map_upt_Suc) (simp add: ac_simps)
  have rd: "sw_round ?s (n AND 1) r =
      Inr (r, \<lparr>polls = replicate k 1 @ ps, inbox = map (\<lambda>j. (n + 1 + int j) AND 1) [0..<k] @ ms,
               clock = replicate k c @ cs, trace = tr @ [SendTo (n AND 1)]\<rparr>)"
    by (subst sw_round_prompt [where p = 1]) (simp_all add: inb del: upt_Suc)
  have "n + int (Suc k) = (n + 1) + int k" by simp
  then show ?case
    using Suc.IH [of "n + 1" "tr @ [SendTo (n AND 1)]"]
    by (simp add: sw_client.simps [of ?s] rd snd add.assoc del: replicate_Suc upt_Suc)
qed

text \<open>
  C28 (liveness).  Against a peer that acknowledges every frame at once with its bit,
  \<^verbatim>\<open>clientStopWait\<close> returns for every number of messages, sends each message
  once and reports no retransmission.
\<close>

theorem clientStopWait_completes:
  "clientStopWait \<lparr>polls = replicate k 1, inbox = map (\<lambda>j. int j AND 1) [0..<k],
                   clock = replicate k c, trace = []\<rparr> (int k) =
   Inr (0, \<lparr>polls = [], inbox = [], clock = [], trace = map (\<lambda>j. SendTo (int j AND 1)) [0..<k]\<rparr>)"
  using sw_client_prompt [of k "[]" 0 "[]" c "[]" "[]" 0] by (simp add: clientStopWait_def)

text \<open>
  C37 (error).  Line 56 adds \<open>seqNum ^ message[0]\<close> to the retransmission counter
  rather than one per resend.  Take a round in which a wrong acknowledgment \<open>w\<close> and
  then the right one arrive at once.  The round sends the message twice, once of them a
  retransmission, yet the counter grows by \<open>w XOR message[0]\<close>.  For a one-bit
  message and an acknowledgment that is not a bit, that is at least 2.
\<close>

theorem sw_round_overcounts:
  assumes wrong: "w \<noteq> m" and pl: "polls sock = 1 # 1 # ps" and ib: "inbox sock = w # m # ms"
    and ck: "clock sock = t0 # t1 # cs"
  shows "sw_round sock m r =
           Inr (r + (w XOR m), sock\<lparr>polls := ps, inbox := ms, clock := cs,
                                   trace := trace sock @ [SendTo m, SendTo m]\<rparr>) \<and>
         (0 \<le> m \<and> m \<le> 1 \<and> 2 \<le> w \<longrightarrow> 2 \<le> w XOR m)"
proof
  let ?sock3 = "sock\<lparr>trace := trace sock @ [SendTo m], clock := t1 # cs, polls := 1 # ps, inbox := m # ms\<rparr>"
  have r1: "sw_round sock m r = sw_round ?sock3 m (r + (w XOR m))"
    using wrong pl ib ck
    by (simp add: sw_round.simps [of sock m r] sw_wait.simps pollRecvFrom_def recvFrom_def timer_start_def
        sendTo_def)
  have r2: "sw_round ?sock3 m (r + (w XOR m)) =
      Inr (r + (w XOR m), sock\<lparr>polls := ps, inbox := ms, clock := cs, trace := trace sock @ [SendTo m, SendTo m]\<rparr>)"
    by (simp add: sw_round.simps [of ?sock3] sw_wait.simps pollRecvFrom_def recvFrom_def timer_start_def
        sendTo_def)
  show "sw_round sock m r =
           Inr (r + (w XOR m), sock\<lparr>polls := ps, inbox := ms, clock := cs,
                                   trace := trace sock @ [SendTo m, SendTo m]\<rparr>)"
    using r1 r2 by simp
next
  show "0 \<le> m \<and> m \<le> 1 \<and> 2 \<le> w \<longrightarrow> 2 \<le> w XOR m"
  proof
    assume a: "0 \<le> m \<and> m \<le> 1 \<and> 2 \<le> w"
    then consider "m = 0" | "m = 1" by linarith
    then show "2 \<le> w XOR m"
    proof cases
      case 1
      then show ?thesis using a by simp
    next
      case 2
      have "odd w \<Longrightarrow> 3 \<le> w" using a by presburger
      then show ?thesis using a 2 by (auto simp: xor_one_eq)
    qed
  qed
qed

theorem sw_round_overcounts_witness:
  "(3::int) \<noteq> 0 \<and> 0 \<le> (0::int) \<and> (0::int) \<le> 1 \<and> 2 \<le> (3::int) \<and>
   sw_round \<lparr>polls = [1, 1], inbox = [3, 0], clock = [0, 0], trace = []\<rparr> 0 0 =
     Inr (3, \<lparr>polls = [], inbox = [], clock = [], trace = [SendTo 0, SendTo 0]\<rparr>) \<and>
   clientStopWait \<lparr>polls = [1, 1], inbox = [3, 0], clock = [0, 0], trace = []\<rparr> 1 =
     Inr (3, \<lparr>polls = [], inbox = [], clock = [], trace = [SendTo 0, SendTo 0]\<rparr>)"
proof -
  have "sw_round \<lparr>polls = [1, 1], inbox = [3, 0], clock = [0, 0], trace = []\<rparr> 0 0 =
     Inr (0 + (3 XOR 0), \<lparr>polls = [], inbox = [], clock = [], trace = [] @ [SendTo 0, SendTo 0]\<rparr>)"
    using sw_round_overcounts [of 3 0 "\<lparr>polls = [1, 1], inbox = [3, 0], clock = [0, 0], trace = []\<rparr>"
        "[]" "[]" 0 0 "[]" 0] by simp
  then show ?thesis
    by (simp add: clientStopWait_def sw_client.simps)
qed

theorem clientStopWait_sends_witness:
  "\<exists>bits. [SendTo 0, SendTo 1, SendTo 1, SendTo 0] = [] @ map SendTo bits \<and>
     remdups_adj bits = map (\<lambda>j. int j AND 1) [0..<nat 3] \<and> int (length bits) = 3 + 1"
proof -
  have run: "clientStopWait \<lparr>polls = [1, 0, 1, 1], inbox = [0, 1, 0], clock = [0, 0, 2000, 2000, 2100],
      trace = []\<rparr> 3 =
    Inr (1, \<lparr>polls = [], inbox = [], clock = [], trace = [SendTo 0, SendTo 1, SendTo 1, SendTo 0]\<rparr>)"
    by (simp add: clientStopWait_def sw_client.simps sw_round.simps sw_wait.simps MAX_TIME_def
        pollRecvFrom_def recvFrom_def timer_start_def timer_lap_def sendTo_def)
  show ?thesis using clientStopWait_sends [OF run] by simp
qed

theorem serverReliable_never_completes_witness:
  "serverReliable \<lparr>polls = [], inbox = [0, 1, 0, 1, 1], clock = [], trace = []\<rparr> 3 = Inl Starved"
  using serverReliable_never_completes [of 3 "\<lparr>polls = [], inbox = [0, 1, 0, 1, 1], clock = [], trace = []\<rparr>"]
  by simp

end
