(* ===== verification/WindowReceiver.thy ===== *)
theory WindowReceiver
  imports Transport
begin

text \<open>
  The sliding-window receiver \<^verbatim>\<open>serverEarlyRetrans\<close> of \<^verbatim>\<open>src/udp.cpp\<close>
  (lines 197-231).  Its local variables \<open>largestAccFrame\<close>, \<open>lastAckSent\<close> and the
  flag array \<open>buffer[seqRange]\<close> form the record \<open>rx_state\<close>; the fold loop
  (lines 219-223) is \<open>rx_fold\<close>, one pass of the do-while body is \<open>rx_step\<close>,
  the do-while is \<open>rx_round\<close> and the for loop is \<open>rx_loop\<close>.  The abstract
  receiver \<open>rcv_spec\<close> keeps the absolute next expected number \<open>e\<close> and a window
  of \<open>windowSize\<close> received flags; \<open>rx_rel\<close> relates the two, and
  \<open>rx_inv\<close> is the same relation as an executable predicate on the concrete state.
\<close>

section \<open>Receiver state and operations\<close>

record rx_state =
  largestAccFrame :: int
  lastAckSent :: int
  rbuf :: "bool list"

definition rx_init :: "int \<Rightarrow> rx_state" where
  "rx_init windowSize =
     (let seqRange = windowSize * 2 + 1 in
      \<lparr>largestAccFrame = windowSize - 1, lastAckSent = seqRange - 1,
       rbuf = replicate (nat seqRange) False\<rparr>)"

definition rx_fold_measure :: "rx_state \<Rightarrow> nat" where
  "rx_fold_measure s =
     2 * length (filter id (rbuf s)) + (if c_read (rbuf s) (lastAckSent s) = Inr True then 0 else 1)"

function rx_fold :: "int \<Rightarrow> rx_state \<Rightarrow> rx_state result" where
  "rx_fold seqRange s =
     (case c_read (rbuf s) ((lastAckSent s + 1) smod seqRange) of
        Inl f \<Rightarrow> Inl f
      | Inr b \<Rightarrow>
          if b = True then
            (case c_write (rbuf s) (lastAckSent s) False of
               Inl f \<Rightarrow> Inl f
             | Inr buf' \<Rightarrow>
                 rx_fold seqRange
                   (s\<lparr>rbuf := buf', lastAckSent := (lastAckSent s + 1) smod seqRange,
                      largestAccFrame := (largestAccFrame s + 1) smod seqRange\<rparr>))
          else Inr s)"
  by pat_completeness auto
termination
proof (relation "measure (\<lambda>(_, s). rx_fold_measure s)", goal_cases)
  case 1
  show ?case by simp
next
  case (2 R s b buf')
  let ?i = "lastAckSent s" and ?j = "(lastAckSent s + 1) smod R"
  from 2 have j: "0 \<le> ?j" "?j < int (length (rbuf s))" "rbuf s ! nat ?j"
    by (auto simp: c_read_Inr_iff)
  from 2 have i: "0 \<le> ?i" "?i < int (length (rbuf s))" and buf': "buf' = (rbuf s)[nat ?i := False]"
    by (auto simp: c_write_Inr_iff)
  have cnt: "length (filter id buf') + (if rbuf s ! nat ?i then 1 else 0) = length (filter id (rbuf s))"
    using count_set_clear [of "nat ?i" "rbuf s"] i buf' by simp
  show ?case
  proof (cases "?j = ?i")
    case True
    with j buf' i have "\<not> buf' ! nat ?j" by simp
    with True j cnt i show ?thesis
      by (simp add: rx_fold_measure_def c_read_def buf')
  next
    case False
    with j buf' i have "buf' ! nat ?j" by (simp add: nat_eq_iff)
    with j cnt i buf' show ?thesis
      by (auto simp: rx_fold_measure_def c_read_def)
  qed
qed

declare rx_fold.simps [simp del]

definition rx_offset :: "int \<Rightarrow> rx_state \<Rightarrow> int \<Rightarrow> int" where
  "rx_offset windowSize s seq =
     (let seqRange = windowSize * 2 + 1 in
      windowSize - (seqRange + largestAccFrame s - seq) smod seqRange)"

definition rx_step :: "int \<Rightarrow> rx_state \<Rightarrow> int \<Rightarrow> (int \<times> int \<times> rx_state) result" where
  "rx_step windowSize s seq =
     (let seqRange = windowSize * 2 + 1;
          offset = rx_offset windowSize s seq in
      case (if offset > 0 then c_write (rbuf s) seq True else Inr (rbuf s)) of
        Inl f \<Rightarrow> Inl f
      | Inr buf \<Rightarrow>
          (case rx_fold seqRange (s\<lparr>rbuf := buf\<rparr>) of
             Inl f \<Rightarrow> Inl f
           | Inr s' \<Rightarrow> Inr (offset, (lastAckSent s' + 1) smod seqRange, s')))"

function rx_round :: "env \<Rightarrow> int \<Rightarrow> rx_state \<Rightarrow> (rx_state \<times> env) result" where
  "rx_round sock windowSize s =
     (case recvFrom sock of
        Inl f \<Rightarrow> Inl f
      | Inr (seq, sock1) \<Rightarrow>
          (case rx_step windowSize s seq of
             Inl f \<Rightarrow> Inl f
           | Inr (offset, ack, s') \<Rightarrow>
               (let sock2 = ackTo ack sock1 in
                if offset \<le> 0 then rx_round sock2 windowSize s' else Inr (s', sock2))))"
  by pat_completeness auto
termination
  by (relation "measure (\<lambda>(sock, _, _). length (inbox sock))") (auto dest!: recvFrom_effect)

declare rx_round.simps [simp del]

function rx_loop :: "env \<Rightarrow> int \<Rightarrow> int \<Rightarrow> int \<Rightarrow> rx_state \<Rightarrow> (rx_state \<times> env) result" where
  "rx_loop sock msgMax windowSize msgToAck s =
     (if msgToAck < msgMax then
        (case rx_round sock windowSize s of
           Inl f \<Rightarrow> Inl f
         | Inr (s', sock') \<Rightarrow> rx_loop sock' msgMax windowSize (msgToAck + 1) s')
      else Inr (s, sock))"
  by pat_completeness auto
termination
  by (relation "measure (\<lambda>(_, msgMax, _, msgToAck, _). nat (msgMax - msgToAck))") auto

declare rx_loop.simps [simp del]

definition serverEarlyRetrans :: "env \<Rightarrow> int \<Rightarrow> int \<Rightarrow> env result" where
  "serverEarlyRetrans sock msgMax windowSize =
     (case rx_loop sock msgMax windowSize 0 (rx_init windowSize) of
        Inl f \<Rightarrow> Inl f
      | Inr (s, sock') \<Rightarrow> Inr sock')"

section \<open>Abstract cumulative-acknowledgment receiver\<close>

text \<open>
  \<open>rcv_spec W e w n\<close> receives frame number \<open>n\<close>: a frame within \<open>W\<close> of the
  next expected number \<open>e\<close> is marked, then \<open>e\<close> advances over the contiguous run of
  received frames.  \<open>rcv_acks\<close> lists the acknowledgments (next expected numbers)
  after each frame of a stream, \<open>rcv_ok\<close> says every frame lies within the range a
  Go-Back-N sender of window \<open>W\<close> can have in flight.
\<close>

definition rcv_spec :: "int \<Rightarrow> int \<Rightarrow> bool list \<Rightarrow> int \<Rightarrow> int \<times> bool list \<times> bool" where
  "rcv_spec W e w n =
     (let k = n - e;
          acc = (0 \<le> k \<and> k < W);
          w1 = (if acc then w[nat k := True] else w);
          c = length (takeWhile id w1)
      in (e + int c, drop c w1 @ replicate c False, acc))"

fun rcv_run :: "int \<Rightarrow> int \<Rightarrow> bool list \<Rightarrow> int list \<Rightarrow> int \<times> bool list" where
  "rcv_run W e w [] = (e, w)"
| "rcv_run W e w (n # ns) = (case rcv_spec W e w n of (e1, w1, _) \<Rightarrow> rcv_run W e1 w1 ns)"

fun rcv_acks :: "int \<Rightarrow> int \<Rightarrow> bool list \<Rightarrow> int list \<Rightarrow> int list" where
  "rcv_acks W e w [] = []"
| "rcv_acks W e w (n # ns) = (case rcv_spec W e w n of (e1, w1, _) \<Rightarrow> e1 # rcv_acks W e1 w1 ns)"

fun rcv_ok :: "int \<Rightarrow> int \<Rightarrow> bool list \<Rightarrow> int list \<Rightarrow> bool" where
  "rcv_ok W e w [] = True"
| "rcv_ok W e w (n # ns) =
     (e - W - 1 \<le> n \<and> n < e + W \<and> (case rcv_spec W e w n of (e1, w1, _) \<Rightarrow> rcv_ok W e1 w1 ns))"

section \<open>Refinement relation and invariant\<close>

definition rx_rel :: "int \<Rightarrow> int \<Rightarrow> bool list \<Rightarrow> rx_state \<Rightarrow> bool" where
  "rx_rel W e w s \<longleftrightarrow>
     (let R = W * 2 + 1 in
      length (rbuf s) = nat R \<and> length w = nat W \<and>
      lastAckSent s = (e - 1) mod R \<and> largestAccFrame s = (e - 1 + W) mod R \<and>
      (\<forall>d. 0 \<le> d \<and> d < W \<longrightarrow> rbuf s ! nat ((e + d) mod R) = w ! nat d) \<and>
      (\<forall>d. W \<le> d \<and> d < 2 * W \<longrightarrow> \<not> rbuf s ! nat ((e + d) mod R)))"

definition rx_window :: "int \<Rightarrow> rx_state \<Rightarrow> bool list" where
  "rx_window W s =
     map (\<lambda>d. rbuf s ! nat ((lastAckSent s + 1 + int d) mod (W * 2 + 1))) [0..<nat W]"

definition rx_inv :: "int \<Rightarrow> rx_state \<Rightarrow> bool" where
  "rx_inv W s \<longleftrightarrow>
     (let R = W * 2 + 1; e = lastAckSent s + 1 in
      0 < W \<and> length (rbuf s) = nat R \<and> 0 \<le> lastAckSent s \<and> lastAckSent s < R \<and>
      largestAccFrame s = (lastAckSent s + W) mod R \<and> \<not> rbuf s ! nat (e mod R) \<and>
      list_all (\<lambda>d. \<not> rbuf s ! nat ((e + d) mod R)) [W..2 * W - 1])"

definition rx_at :: "int \<Rightarrow> int \<Rightarrow> bool list \<Rightarrow> int list \<Rightarrow> rx_state \<Rightarrow> bool" where
  "rx_at W e w ns s \<longleftrightarrow> 0 < W \<and> rx_rel W e w s \<and> \<not> w ! 0 \<and> rcv_ok W e w ns"

abbreviation rx_frames :: "int \<Rightarrow> int list \<Rightarrow> int list" where
  "rx_frames W ns \<equiv> map (\<lambda>n. n mod (W * 2 + 1)) ns"

abbreviation rx_after :: "int \<Rightarrow> int \<Rightarrow> bool list \<Rightarrow> int list \<Rightarrow> nat \<Rightarrow> env \<Rightarrow> env" where
  "rx_after W e w ns j sock \<equiv>
     sock\<lparr>inbox := rx_frames W (drop j ns),
          trace := trace sock @ map (\<lambda>a. AckTo (a mod (W * 2 + 1))) (take j (rcv_acks W e w ns))\<rparr>"

definition acks_in_range :: "int \<Rightarrow> env \<Rightarrow> env \<Rightarrow> bool" where
  "acks_in_range R sock sock' \<longleftrightarrow>
     (\<exists>acks. trace sock' = trace sock @ map AckTo acks \<and> list_all (\<lambda>a. 0 \<le> a \<and> a < R) acks)"

section \<open>Simulation lemmas\<close>

lemma slot_eq_iff:
  fixes R e d1 d2 :: int
  assumes "0 \<le> d1" "d1 < R" "0 \<le> d2" "d2 < R"
  shows "(e + d1) mod R = (e + d2) mod R \<longleftrightarrow> d1 = d2"
  using mod_window_inj [of e "e + d1" R "e + d2"] assms by auto

lemma rx_relD:
  assumes "rx_rel W e w s"
  shows "length (rbuf s) = nat (W * 2 + 1)" "length w = nat W"
    "lastAckSent s = (e - 1) mod (W * 2 + 1)" "largestAccFrame s = (e - 1 + W) mod (W * 2 + 1)"
    "\<And>d. 0 \<le> d \<Longrightarrow> d < W \<Longrightarrow> rbuf s ! nat ((e + d) mod (W * 2 + 1)) = w ! nat d"
    "\<And>d. W \<le> d \<Longrightarrow> d < 2 * W \<Longrightarrow> \<not> rbuf s ! nat ((e + d) mod (W * 2 + 1))"
  using assms by (simp_all add: rx_rel_def Let_def)

lemma next_slot:
  fixes e R :: int
  assumes "0 < R"
  shows "((e - 1) mod R + 1) smod R = e mod R"
proof -
  have "0 \<le> (e - 1) mod R + 1" using assms by simp
  then have "((e - 1) mod R + 1) smod R = ((e - 1) mod R + 1) mod R" using assms by simp
  also have "\<dots> = e mod R" by (simp add: mod_add_left_eq)
  finally show ?thesis .
qed

lemma rx_fold_stop:
  assumes W: "0 < W" and rel: "rx_rel W e w s" and nz: "\<not> w ! 0"
  shows "rx_fold (W * 2 + 1) s = Inr s"
proof -
  let ?R = "W * 2 + 1"
  have R: "0 < ?R" using W by simp
  have idx: "(lastAckSent s + 1) smod ?R = (e + 0) mod ?R"
    using rx_relD(3) [OF rel] next_slot [OF R] by simp
  have "0 \<le> (e + 0) mod ?R" "(e + 0) mod ?R < int (length (rbuf s))"
    using slot_in_array [OF R rx_relD(1) [OF rel]] by simp_all
  moreover have "rbuf s ! nat ((e + 0) mod ?R) = w ! 0"
    using rx_relD(5) [OF rel, of 0] W by simp
  ultimately show ?thesis
    using nz by (simp add: rx_fold.simps [of ?R s] idx)
qed

lemma update_slot_nth:
  fixes R e d1 d2 :: int
  assumes R: "0 < R" and len: "length xs = nat R"
    and d1: "0 \<le> d1" "d1 < R" and d2: "0 \<le> d2" "d2 < R"
  shows "xs[nat ((e + d1) mod R) := v] ! nat ((e + d2) mod R) =
           (if d1 = d2 then v else xs ! nat ((e + d2) mod R))"
proof -
  have ne: "nat ((e + d1) mod R) = nat ((e + d2) mod R) \<longleftrightarrow> d1 = d2"
    using slot_eq_iff [OF d1 d2, of e] slot_in_array(1) [OF R len, of "e + d1"]
      slot_in_array(1) [OF R len, of "e + d2"] by (simp add: eq_nat_nat_iff)
  show ?thesis
    using slot_in_array(3) [OF R len, of "e + d1"] ne by (auto simp: nth_list_update)
qed

lemma last_ack_slot:
  fixes e W :: int
  shows "(e - 1) mod (W * 2 + 1) = (e + W * 2) mod (W * 2 + 1)"
proof -
  have "e + W * 2 = (e - 1) + (W * 2 + 1)" by simp
  then show ?thesis by (simp only: mod_plus_modulus)
qed

lemma rx_fold_step:
  assumes W: "0 < W" and rel: "rx_rel W e w s" and hd: "w ! 0"
  shows "\<exists>s1. rx_fold (W * 2 + 1) s = rx_fold (W * 2 + 1) s1 \<and> rx_rel W (e + 1) (tl w @ [False]) s1"
proof -
  let ?R = "W * 2 + 1"
  have R: "0 < ?R" using W by simp
  note len = rx_relD(1) [OF rel] and lenw = rx_relD(2) [OF rel]
  note las = rx_relD(3) [OF rel] and laf = rx_relD(4) [OF rel]
  let ?las = "lastAckSent s"
  let ?buf' = "(rbuf s)[nat ?las := False]"
  let ?s1 = "s\<lparr>rbuf := ?buf', lastAckSent := (?las + 1) smod ?R,
                 largestAccFrame := (largestAccFrame s + 1) smod ?R\<rparr>"
  have idx: "(?las + 1) smod ?R = (e + 0) mod ?R"
    using las next_slot [OF R] by simp
  have rd: "c_read (rbuf s) ((?las + 1) smod ?R) = Inr True"
    using idx slot_in_array [OF R len, of "e + 0"] rx_relD(5) [OF rel, of 0] W hd by simp
  have wr: "c_write (rbuf s) ?las False = Inr ?buf'"
    using las slot_in_array [OF R len, of "e - 1"] by simp
  have unf: "rx_fold ?R s = rx_fold ?R ?s1"
    using rd wr by (simp add: rx_fold.simps [of ?R s])
  have las2: "?las = (e + W * 2) mod ?R" using las last_ack_slot by simp
  have buf_nth: "?buf' ! nat ((e + d) mod ?R) = (if d = W * 2 then False else rbuf s ! nat ((e + d) mod ?R))"
    if "0 \<le> d" "d < ?R" for d
    using update_slot_nth [OF R len, of "W * 2" d e False] that W las2 by simp
  have shift: "(e + 1 + d) mod ?R = (e + (d + 1)) mod ?R" for d by (simp add: ac_simps)
  have rel1: "rx_rel W (e + 1) (tl w @ [False]) ?s1"
    unfolding rx_rel_def Let_def
  proof (intro conjI allI impI)
    show "length (rbuf ?s1) = nat ?R" using len by simp
    show "length (tl w @ [False]) = nat W" using lenw W by simp
    show "lastAckSent ?s1 = (e + 1 - 1) mod ?R" using idx by simp
    have "0 \<le> largestAccFrame s + 1" using laf R by simp
    then show "largestAccFrame ?s1 = (e + 1 - 1 + W) mod ?R"
      using laf R by (simp add: mod_add_left_eq mod_add_right_eq ac_simps)
  next
    fix d assume d: "0 \<le> d \<and> d < W"
    have "rbuf ?s1 ! nat ((e + 1 + d) mod ?R) = rbuf s ! nat ((e + (d + 1)) mod ?R)"
      using buf_nth [of "d + 1"] d shift [of d] by simp
    also have "\<dots> = (tl w @ [False]) ! nat d"
    proof (cases "d + 1 < W")
      case True
      then have "rbuf s ! nat ((e + (d + 1)) mod ?R) = w ! nat (d + 1)"
        using rx_relD(5) [OF rel, of "d + 1"] d by simp
      moreover have "nat d < length (tl w)" using True lenw d by simp
      ultimately show ?thesis using d by (simp add: nth_append nth_tl nat_add_distrib)
    next
      case False
      then have "d + 1 = W" using d by simp
      then have "\<not> rbuf s ! nat ((e + (d + 1)) mod ?R)"
        using rx_relD(6) [OF rel, of W] W by simp
      moreover have "nat d = length (tl w)" using \<open>d + 1 = W\<close> lenw by simp
      ultimately show ?thesis by (simp add: nth_append)
    qed
    finally show "rbuf ?s1 ! nat ((e + 1 + d) mod ?R) = (tl w @ [False]) ! nat d" .
  next
    fix d assume d: "W \<le> d \<and> d < 2 * W"
    show "\<not> rbuf ?s1 ! nat ((e + 1 + d) mod ?R)"
    proof (cases "d + 1 = W * 2")
      case True
      then show ?thesis using buf_nth [of "d + 1"] d shift [of d] by simp
    next
      case False
      then show ?thesis
        using buf_nth [of "d + 1"] d shift [of d] rx_relD(6) [OF rel, of "d + 1"] by simp
    qed
  qed
  from unf rel1 show ?thesis by blast
qed

lemma takeWhile_shift_False:
  "length (takeWhile id (xs @ [False])) = length (takeWhile id xs)"
  by (induction xs) auto

lemma rx_fold_sim:
  assumes W: "0 < W" and rel: "rx_rel W e w s"
  shows "\<exists>s'. rx_fold (W * 2 + 1) s = Inr s' \<and>
           rx_rel W (e + int (length (takeWhile id w)))
             (drop (length (takeWhile id w)) w @ replicate (length (takeWhile id w)) False) s'"
  using rel
proof (induction "length (takeWhile id w)" arbitrary: e w s)
  case 0
  have "w \<noteq> []" using rx_relD(2) [OF "0.prems"] W by auto
  with "0.hyps" have "\<not> w ! 0" by (cases w) auto
  with rx_fold_stop [OF W "0.prems"] "0.prems" "0.hyps" [symmetric] show ?case by simp
next
  case (Suc m)
  have ne: "w \<noteq> []" using Suc.hyps(2) by auto
  with Suc.hyps(2) have hd: "w ! 0" and m: "m = length (takeWhile id (tl w))"
    by (cases w; auto split: if_splits)+
  obtain s1 where unf: "rx_fold (W * 2 + 1) s = rx_fold (W * 2 + 1) s1"
    and rel1: "rx_rel W (e + 1) (tl w @ [False]) s1"
    using rx_fold_step [OF W Suc.prems hd] by blast
  have m1: "m = length (takeWhile id (tl w @ [False]))" using m takeWhile_shift_False by simp
  obtain s' where fs: "rx_fold (W * 2 + 1) s1 = Inr s'"
    and rel': "rx_rel W (e + 1 + int m) (drop m (tl w @ [False]) @ replicate m False) s'"
    using Suc.hyps(1) [OF m1 rel1] m1 by auto
  have le: "m \<le> length (tl w)" using m length_takeWhile_le [of id "tl w"] by simp
  have "drop m (tl w @ [False]) @ replicate m False = drop (Suc m) w @ replicate (Suc m) False"
    using le ne by (cases w) (simp_all add: replicate_append_same [symmetric])
  moreover have "e + 1 + int m = e + int (Suc m)" by simp
  ultimately show ?case using unf fs rel' Suc.hyps(2) [symmetric] by (auto simp: add.assoc)
qed

lemma rx_offset_rel:
  assumes W: "0 < W" and rel: "rx_rel W e w s" and lo: "e - W - 1 \<le> n" and hi: "n < e + W"
  shows "rx_offset W s (n mod (W * 2 + 1)) = n - e + 1"
proof -
  let ?R = "W * 2 + 1"
  have R: "0 < ?R" using W by simp
  have laf: "largestAccFrame s = (e - 1 + W) mod ?R" by (rule rx_relD(4) [OF rel])
  have pos: "0 \<le> ?R + largestAccFrame s - n mod ?R"
    using laf pos_mod_bound [OF R, of n] pos_mod_sign [OF R, of "e - 1 + W"] by linarith
  have "?R + largestAccFrame s - n mod ?R = (e - 1 + W) mod ?R - n mod ?R + ?R"
    using laf by linarith
  then have "(?R + largestAccFrame s - n mod ?R) mod ?R = ((e - 1 + W) mod ?R - n mod ?R + ?R) mod ?R"
    by (rule arg_cong)
  also have "\<dots> = (e - 1 + W - n) mod ?R"
    by (simp only: mod_plus_modulus mod_diff_eq)
  also have "\<dots> = e - 1 + W - n" using lo hi by simp
  finally have "(?R + largestAccFrame s - n mod ?R) smod ?R = e - 1 + W - n"
    using pos R by simp
  then show ?thesis by (simp add: rx_offset_def Let_def)
qed

lemma rx_rel_mark:
  assumes W: "0 < W" and rel: "rx_rel W e w s" and k: "0 \<le> k" "k < W"
  shows "rx_rel W e (w[nat k := True])
           (s\<lparr>rbuf := (rbuf s)[nat ((e + k) mod (W * 2 + 1)) := True]\<rparr>)"
proof -
  let ?R = "W * 2 + 1"
  have R: "0 < ?R" using W by simp
  note len = rx_relD(1) [OF rel]
  have upd: "(rbuf s)[nat ((e + k) mod ?R) := True] ! nat ((e + d) mod ?R) =
      (if k = d then True else rbuf s ! nat ((e + d) mod ?R))" if "0 \<le> d" "d < ?R" for d
    using update_slot_nth [OF R len, of k d e True] k that by simp
  show ?thesis
    unfolding rx_rel_def Let_def
  proof (intro conjI allI impI)
    fix d assume d: "0 \<le> d \<and> d < W"
    have "nat k = nat d \<longleftrightarrow> k = d" using d k by (simp add: eq_nat_nat_iff)
    then show "rbuf (s\<lparr>rbuf := (rbuf s)[nat ((e + k) mod ?R) := True]\<rparr>) ! nat ((e + d) mod ?R) =
        w[nat k := True] ! nat d"
      using upd [of d] d rx_relD(5) [OF rel, of d] rx_relD(2) [OF rel] by (simp add: nth_list_update)
  next
    fix d assume d: "W \<le> d \<and> d < 2 * W"
    then show "\<not> rbuf (s\<lparr>rbuf := (rbuf s)[nat ((e + k) mod ?R) := True]\<rparr>) ! nat ((e + d) mod ?R)"
      using upd [of d] k rx_relD(6) [OF rel, of d] by simp
  qed (use rel in \<open>simp_all add: rx_rel_def Let_def\<close>)
qed

lemma advance_head_clear:
  assumes "xs \<noteq> []"
  shows "\<not> (drop (length (takeWhile id xs)) xs @ replicate (length (takeWhile id xs)) False) ! 0"
proof (cases "length (takeWhile id xs) < length xs")
  case True
  then have "\<not> xs ! length (takeWhile id xs)" using nth_length_takeWhile [of id xs] by simp
  with True show ?thesis by (simp add: nth_append)
next
  case False
  then have "length (takeWhile id xs) = length xs" by (simp add: length_takeWhile_le le_antisym)
  with assms show ?thesis by (simp add: nth_append)
qed

lemma rx_step_sim:
  assumes W: "0 < W" and rel: "rx_rel W e w s" and nz: "\<not> w ! 0"
    and lo: "e - W - 1 \<le> n" and hi: "n < e + W"
    and spec: "rcv_spec W e w n = (e', w', acc)"
  shows "\<exists>s'. rx_step W s (n mod (W * 2 + 1)) = Inr (n - e + 1, e' mod (W * 2 + 1), s') \<and>
           rx_rel W e' w' s' \<and> \<not> w' ! 0 \<and> (acc \<longleftrightarrow> 0 < n - e + 1)"
proof -
  let ?R = "W * 2 + 1"
  have R: "0 < ?R" using W by simp
  let ?k = "n - e"
  have acc: "acc \<longleftrightarrow> 0 \<le> ?k" using spec hi by (auto simp: rcv_spec_def Let_def)
  let ?w1 = "if 0 \<le> ?k then w[nat ?k := True] else w"
  let ?c = "length (takeWhile id ?w1)"
  have e': "e' = e + int ?c" and w': "w' = drop ?c ?w1 @ replicate ?c False"
    using spec hi by (auto simp: rcv_spec_def Let_def)
  have off: "rx_offset W s (n mod ?R) = n - e + 1" by (rule rx_offset_rel [OF W rel lo hi])
  obtain buf where wr: "(if rx_offset W s (n mod ?R) > 0 then c_write (rbuf s) (n mod ?R) True
                         else Inr (rbuf s)) = Inr buf"
    and rel1: "rx_rel W e ?w1 (s\<lparr>rbuf := buf\<rparr>)"
  proof (cases "0 \<le> ?k")
    case True
    have slot: "n mod ?R = (e + ?k) mod ?R" by simp
    have "c_write (rbuf s) (n mod ?R) True = Inr ((rbuf s)[nat ((e + ?k) mod ?R) := True])"
      using slot slot_in_array [OF R rx_relD(1) [OF rel], of n] by simp
    moreover have "rx_rel W e ?w1 (s\<lparr>rbuf := (rbuf s)[nat ((e + ?k) mod ?R) := True]\<rparr>)"
      using rx_rel_mark [OF W rel True] hi True by simp
    ultimately show ?thesis using that off True by simp
  next
    case False
    then show ?thesis using that off rel by simp
  qed
  obtain s' where fs: "rx_fold ?R (s\<lparr>rbuf := buf\<rparr>) = Inr s'"
    and rel': "rx_rel W (e + int ?c) (drop ?c ?w1 @ replicate ?c False) s'"
    using rx_fold_sim [OF W rel1] by blast
  have ack: "(lastAckSent s' + 1) smod ?R = e' mod ?R"
    using rx_relD(3) [OF rel'] next_slot [OF R] e' by simp
  have ne: "?w1 \<noteq> []" using rx_relD(2) [OF rel] W by auto
  have step: "rx_step W s (n mod ?R) = Inr (n - e + 1, e' mod ?R, s')"
    using wr fs ack off by (simp add: rx_step_def Let_def)
  show ?thesis
    using step rel' e' w' advance_head_clear [OF ne] acc by auto
qed

lemma rx_inv_rel:
  assumes inv: "rx_inv W s"
  shows "rx_rel W (lastAckSent s + 1) (rx_window W s) s" "\<not> rx_window W s ! 0"
proof -
  let ?R = "W * 2 + 1" and ?e = "lastAckSent s + 1"
  have W: "0 < W" and len: "length (rbuf s) = nat ?R" and las: "0 \<le> lastAckSent s" "lastAckSent s < ?R"
    and laf: "largestAccFrame s = (lastAckSent s + W) mod ?R" and hd: "\<not> rbuf s ! nat (?e mod ?R)"
    and tl: "\<And>d. W \<le> d \<Longrightarrow> d \<le> 2 * W - 1 \<Longrightarrow> \<not> rbuf s ! nat ((?e + d) mod ?R)"
    using inv by (auto simp: rx_inv_def Let_def list_all_iff)
  show "rx_rel W ?e (rx_window W s) s"
    unfolding rx_rel_def Let_def
  proof (intro conjI allI impI)
    fix d assume "0 \<le> d \<and> d < W"
    then show "rbuf s ! nat ((?e + d) mod ?R) = rx_window W s ! nat d"
      by (simp add: rx_window_def)
  next
    fix d assume "W \<le> d \<and> d < 2 * W"
    then show "\<not> rbuf s ! nat ((?e + d) mod ?R)" using tl by simp
  qed (use len las laf in \<open>simp_all add: rx_window_def\<close>)
  show "\<not> rx_window W s ! 0" using hd W by (simp add: rx_window_def)
qed

lemma rx_rel_inv:
  assumes W: "0 < W" and rel: "rx_rel W e w s" and nz: "\<not> w ! 0"
  shows "rx_inv W s"
proof -
  let ?R = "W * 2 + 1"
  have R: "0 < ?R" using W by simp
  note las = rx_relD(3) [OF rel]
  have slot: "(lastAckSent s + 1 + d) mod ?R = (e + d) mod ?R" for d
  proof -
    have "(lastAckSent s + 1 + d) mod ?R = ((e - 1) mod ?R + (1 + d)) mod ?R"
      using las by (simp add: add.assoc)
    also have "\<dots> = (e + d) mod ?R" by (simp add: mod_add_left_eq)
    finally show ?thesis .
  qed
  have hd: "\<not> rbuf s ! nat ((e + 0) mod ?R)" using rx_relD(5) [OF rel, of 0] W nz by simp
  have tl: "list_all (\<lambda>d. \<not> rbuf s ! nat ((lastAckSent s + 1 + d) mod ?R)) [W..2 * W - 1]"
    using rx_relD(6) [OF rel] by (simp add: list_all_iff slot)
  have laf: "largestAccFrame s = (lastAckSent s + W) mod ?R"
    using rx_relD(4) [OF rel] las by (simp add: mod_add_left_eq)
  show ?thesis
    unfolding rx_inv_def Let_def
    using W rx_relD(1) [OF rel] laf hd tl slot [of 0] las
      pos_mod_sign [OF R, of "e - 1"] pos_mod_bound [OF R, of "e - 1"]
    by simp
qed

lemma rx_inv_pos: "rx_inv W s \<Longrightarrow> 0 < W"
  by (simp add: rx_inv_def Let_def)

text \<open>Every sequence number is the residue of a frame number in the window around
  the next expected frame \<open>lastAckSent + 1\<close>.\<close>

lemma residue_in_window:
  fixes W e seq :: int
  assumes W: "0 < W" and seq: "0 \<le> seq" "seq < W * 2 + 1"
  obtains n where "e - W - 1 \<le> n" "n < e + W" "n mod (W * 2 + 1) = seq"
proof -
  let ?R = "W * 2 + 1"
  have R: "0 < ?R" using W by simp
  define n where "n = e - W - 1 + (seq - (e - W - 1)) mod ?R"
  have "n mod ?R = (e - W - 1 + (seq - (e - W - 1))) mod ?R"
    unfolding n_def by (simp add: mod_add_right_eq)
  then have "n mod ?R = seq" using seq by simp
  moreover have "e - W - 1 \<le> n" "n < e + W"
    unfolding n_def using pos_mod_sign [OF R, of "seq - (e - W - 1)"]
      pos_mod_bound [OF R, of "seq - (e - W - 1)"] by linarith+
  ultimately show ?thesis using that by blast
qed

lemma rx_step_inv:
  assumes inv: "rx_inv W s" and seq: "0 \<le> seq" "seq < W * 2 + 1"
  shows "\<exists>s'. rx_step W s seq = Inr (rx_offset W s seq, (lastAckSent s' + 1) mod (W * 2 + 1), s') \<and>
           rx_inv W s'"
proof -
  let ?R = "W * 2 + 1" and ?e = "lastAckSent s + 1"
  have W: "0 < W" by (rule rx_inv_pos [OF inv])
  obtain n where lo: "?e - W - 1 \<le> n" and hi: "n < ?e + W" and nmod: "n mod ?R = seq"
    using residue_in_window [OF W seq] by blast
  obtain e' w' acc where spec: "rcv_spec W ?e (rx_window W s) n = (e', w', acc)"
    by (metis prod_cases3)
  obtain s' where st: "rx_step W s (n mod ?R) = Inr (n - ?e + 1, e' mod ?R, s')"
    and rel': "rx_rel W e' w' s'" and nz: "\<not> w' ! 0"
    using rx_step_sim [OF W rx_inv_rel [OF inv] lo hi spec] by blast
  have off: "rx_offset W s seq = n - ?e + 1"
    using rx_offset_rel [OF W rx_inv_rel(1) [OF inv] lo hi] nmod by simp
  have ack: "(lastAckSent s' + 1) mod ?R = e' mod ?R"
    using rx_relD(3) [OF rel'] by (simp add: mod_add_left_eq)
  show ?thesis
    using st nmod off ack rx_rel_inv [OF W rel' nz] by auto
qed

lemma rx_init_inv:
  assumes W: "0 < W"
  shows "rx_inv W (rx_init W)"
proof -
  let ?R = "W * 2 + 1"
  have R: "0 < ?R" using W by simp
  have "nat (x mod ?R) < nat ?R" for x using pos_mod_bound [OF R, of x] pos_mod_sign [OF R, of x] by simp
  moreover have "3 * W mod ?R = W - 1"
  proof -
    have "3 * W = (W - 1) + ?R" by simp
    then have "3 * W mod ?R = (W - 1) mod ?R" by (simp only: mod_plus_modulus)
    then show ?thesis using W by simp
  qed
  ultimately show ?thesis using W by (simp add: rx_inv_def rx_init_def Let_def list_all_iff)
qed

lemma acks_in_range_refl [simp]: "acks_in_range R sock sock"
  unfolding acks_in_range_def by (rule exI [of _ "[]"]) simp

lemma acks_in_range_ackTo:
  "0 \<le> a \<Longrightarrow> a < R \<Longrightarrow> trace sock1 = trace sock \<Longrightarrow> acks_in_range R (ackTo a sock1) sock' \<Longrightarrow>
     acks_in_range R sock sock'"
proof -
  assume a: "0 \<le> a" "a < R" and tr: "trace sock1 = trace sock"
    and "acks_in_range R (ackTo a sock1) sock'"
  then obtain acks where "trace sock' = trace sock1 @ [AckTo a] @ map AckTo acks"
    and "list_all (\<lambda>a. 0 \<le> a \<and> a < R) acks" by (auto simp: acks_in_range_def)
  with a tr show ?thesis unfolding acks_in_range_def by (intro exI [of _ "a # acks"]) simp
qed

lemma acks_in_range_trans:
  "acks_in_range R sock1 sock2 \<Longrightarrow> acks_in_range R sock2 sock3 \<Longrightarrow> acks_in_range R sock1 sock3"
proof -
  assume "acks_in_range R sock1 sock2" "acks_in_range R sock2 sock3"
  then obtain as bs where "trace sock2 = trace sock1 @ map AckTo as" "list_all (\<lambda>a. 0 \<le> a \<and> a < R) as"
    "trace sock3 = trace sock2 @ map AckTo bs" "list_all (\<lambda>a. 0 \<le> a \<and> a < R) bs"
    by (auto simp: acks_in_range_def)
  then show ?thesis unfolding acks_in_range_def by (intro exI [of _ "as @ bs"]) simp
qed

abbreviation frames_in_range :: "int \<Rightarrow> env \<Rightarrow> bool" where
  "frames_in_range R sock \<equiv> list_all (\<lambda>m. 0 \<le> m \<and> m < R) (inbox sock)"

lemma rx_round_safe:
  assumes "rx_inv W s" and "frames_in_range (W * 2 + 1) sock"
  shows "rx_round sock W s = Inl Starved \<or>
         (\<exists>s' sock'. rx_round sock W s = Inr (s', sock') \<and> rx_inv W s' \<and>
            frames_in_range (W * 2 + 1) sock' \<and> acks_in_range (W * 2 + 1) sock sock')"
  using assms
proof (induction sock W s rule: rx_round.induct)
  case (1 sock W s)
  let ?R = "W * 2 + 1"
  show ?case
  proof (cases "recvFrom sock")
    case (Inl f)
    then have "f = Starved" by (simp add: recvFrom_def split: list.splits)
    with Inl show ?thesis by (simp add: rx_round.simps [of sock W s])
  next
    case (Inr r)
    obtain seq sock1 where rc: "recvFrom sock = Inr (seq, sock1)" using Inr by (cases r) auto
    have ib: "inbox sock = seq # inbox sock1" using rc by (simp add: recvFrom_Inr)
    have tr: "trace sock1 = trace sock" by (rule trace_unchanged(2) [OF rc])
    have seq: "0 \<le> seq" "seq < ?R" and fr1: "frames_in_range ?R sock1"
      using "1.prems"(2) by (simp_all add: ib)
    obtain s' where st: "rx_step W s seq = Inr (rx_offset W s seq, (lastAckSent s' + 1) mod ?R, s')"
      and inv': "rx_inv W s'"
      using rx_step_inv [OF "1.prems"(1) seq] by blast
    let ?ack = "(lastAckSent s' + 1) mod ?R"
    have R: "0 < ?R" using "1.prems"(1) by (simp add: rx_inv_def Let_def)
    have ackr: "0 \<le> ?ack" "?ack < ?R"
      using pos_mod_sign [OF R] pos_mod_bound [OF R] by blast+
    let ?sock2 = "ackTo ?ack sock1"
    have fr2: "frames_in_range ?R ?sock2" using fr1 by simp
    show ?thesis
    proof (cases "rx_offset W s seq \<le> 0")
      case True
      have unf: "rx_round sock W s = rx_round ?sock2 W s'"
        using rc st True by (simp add: rx_round.simps [of sock W s])
      have IH: "rx_round ?sock2 W s' = Inl Starved \<or>
         (\<exists>s'' sock'. rx_round ?sock2 W s' = Inr (s'', sock') \<and> rx_inv W s'' \<and>
            frames_in_range ?R sock' \<and> acks_in_range ?R ?sock2 sock')"
        using "1.IH" [OF rc refl st refl refl refl True inv' fr2] by simp
      then show ?thesis
      proof
        assume "rx_round ?sock2 W s' = Inl Starved"
        then show ?thesis using unf by simp
      next
        assume "\<exists>s'' sock'. rx_round ?sock2 W s' = Inr (s'', sock') \<and> rx_inv W s'' \<and>
            frames_in_range ?R sock' \<and> acks_in_range ?R ?sock2 sock'"
        then obtain s'' sock' where r: "rx_round ?sock2 W s' = Inr (s'', sock')" and i: "rx_inv W s''"
          and f: "frames_in_range ?R sock'" and a: "acks_in_range ?R ?sock2 sock'" by blast
        have "acks_in_range ?R sock sock'" by (rule acks_in_range_ackTo [OF ackr tr a])
        then show ?thesis using unf r i f by simp
      qed
    next
      case False
      have "rx_round sock W s = Inr (s', ?sock2)"
        using rc st False by (simp add: rx_round.simps [of sock W s])
      moreover have "acks_in_range ?R sock ?sock2"
        by (rule acks_in_range_ackTo [OF ackr tr acks_in_range_refl])
      ultimately show ?thesis using inv' fr2 by simp
    qed
  qed
qed

lemma rx_loop_safe:
  assumes "rx_inv W s" and "frames_in_range (W * 2 + 1) sock"
  shows "rx_loop sock msgMax W k s = Inl Starved \<or>
         (\<exists>s' sock'. rx_loop sock msgMax W k s = Inr (s', sock') \<and> rx_inv W s' \<and>
            acks_in_range (W * 2 + 1) sock sock')"
  using assms
proof (induction sock msgMax W k s rule: rx_loop.induct)
  case (1 sock msgMax W k s)
  let ?R = "W * 2 + 1"
  show ?case
  proof (cases "k < msgMax")
    case False
    then show ?thesis using "1.prems" by (simp add: rx_loop.simps [of sock msgMax W k s])
  next
    case True
    from rx_round_safe [OF "1.prems"] show ?thesis
    proof
      assume "rx_round sock W s = Inl Starved"
      then show ?thesis using True by (simp add: rx_loop.simps [of sock msgMax W k s])
    next
      assume "\<exists>s' sock'. rx_round sock W s = Inr (s', sock') \<and> rx_inv W s' \<and>
            frames_in_range ?R sock' \<and> acks_in_range ?R sock sock'"
      then obtain s1 sock1 where r: "rx_round sock W s = Inr (s1, sock1)" and i: "rx_inv W s1"
        and f: "frames_in_range ?R sock1" and a: "acks_in_range ?R sock sock1" by blast
      have unf: "rx_loop sock msgMax W k s = rx_loop sock1 msgMax W (k + 1) s1"
        using True r by (simp add: rx_loop.simps [of sock msgMax W k s])
      from "1.IH" [OF True r refl i f] show ?thesis
      proof
        assume "rx_loop sock1 msgMax W (k + 1) s1 = Inl Starved"
        then show ?thesis using unf by simp
      next
        assume "\<exists>s' sock'. rx_loop sock1 msgMax W (k + 1) s1 = Inr (s', sock') \<and> rx_inv W s' \<and>
            acks_in_range ?R sock1 sock'"
        then obtain s' sock' where "rx_loop sock1 msgMax W (k + 1) s1 = Inr (s', sock')"
          "rx_inv W s'" "acks_in_range ?R sock1 sock'" by blast
        then show ?thesis using unf acks_in_range_trans [OF a] by simp
      qed
    qed
  qed
qed

lemma rcv_run_append:
  "rcv_run W e w (xs @ ys) = (case rcv_run W e w xs of (e', w') \<Rightarrow> rcv_run W e' w' ys)"
  by (induction W e w xs rule: rcv_run.induct) (auto split: prod.splits)

lemma rcv_acks_append:
  "rcv_acks W e w (xs @ ys) =
     rcv_acks W e w xs @ (case rcv_run W e w xs of (e', w') \<Rightarrow> rcv_acks W e' w' ys)"
  by (induction W e w xs rule: rcv_acks.induct) (auto split: prod.splits)

lemma length_rcv_acks [simp]: "length (rcv_acks W e w ns) = length ns"
  by (induction W e w ns rule: rcv_acks.induct) (auto split: prod.splits)

lemma rcv_acks_take_drop:
  assumes "rcv_run W e w (take j ns) = (e', w')"
  shows "rcv_acks W e w ns = take j (rcv_acks W e w ns) @ rcv_acks W e' w' (drop j ns)"
proof -
  have "rcv_acks W e w ns = rcv_acks W e w (take j ns) @ rcv_acks W e' w' (drop j ns)"
    using rcv_acks_append [of W e w "take j ns" "drop j ns"] assms by simp
  moreover have "take j (rcv_acks W e w ns) = rcv_acks W e w (take j ns)"
    using arg_cong [OF calculation, of "take j"] by (cases "j \<le> length ns") simp_all
  ultimately show ?thesis by simp
qed

lemma rx_round_refines:
  assumes "rx_at W e w ns s" and "inbox sock = rx_frames W ns"
  shows "rx_round sock W s = Inl Starved \<or>
         (\<exists>j s' e' w'. 0 < j \<and> rx_round sock W s = Inr (s', rx_after W e w ns j sock) \<and>
            rcv_run W e w (take j ns) = (e', w') \<and> rx_at W e' w' (drop j ns) s')"
  using assms
proof (induction ns arbitrary: e w s sock)
  case Nil
  then show ?case by (simp add: rx_round.simps [of sock W s] recvFrom_def)
next
  case (Cons n ns)
  let ?R = "W * 2 + 1"
  have W: "0 < W" and rel: "rx_rel W e w s" and nz: "\<not> w ! 0" and lo: "e - W - 1 \<le> n"
    and hi: "n < e + W" using Cons.prems(1) by (simp_all add: rx_at_def)
  obtain e1 w1 acc where spec: "rcv_spec W e w n = (e1, w1, acc)" by (metis prod_cases3)
  have ok1: "rcv_ok W e1 w1 ns" using Cons.prems(1) spec by (simp add: rx_at_def)
  obtain s1 where st: "rx_step W s (n mod ?R) = Inr (n - e + 1, e1 mod ?R, s1)"
    and rel1: "rx_rel W e1 w1 s1" and nz1: "\<not> w1 ! 0"
    using rx_step_sim [OF W rel nz lo hi spec] by blast
  have at1: "rx_at W e1 w1 ns s1" using W rel1 nz1 ok1 by (simp add: rx_at_def)
  let ?sock1 = "sock\<lparr>inbox := rx_frames W ns\<rparr>"
  let ?sock2 = "ackTo (e1 mod ?R) ?sock1"
  have rc: "recvFrom sock = Inr (n mod ?R, ?sock1)" using Cons.prems(2) by (simp add: recvFrom_def)
  have acks: "rcv_acks W e w (n # ns) = e1 # rcv_acks W e1 w1 ns" using spec by simp
  have run: "rcv_run W e w (take (Suc j) (n # ns)) = rcv_run W e1 w1 (take j ns)" for j
    using spec by simp
  show ?case
  proof (cases "n - e + 1 \<le> 0")
    case False
    have "rx_round sock W s = Inr (s1, ?sock2)"
      using rc st False by (simp add: rx_round.simps [of sock W s])
    moreover have "?sock2 = rx_after W e w (n # ns) 1 sock" using acks by (simp add: ackTo_def)
    ultimately show ?thesis using at1 run [of 0] by (intro disjI2 exI [of _ 1]) auto
  next
    case True
    have unf: "rx_round sock W s = rx_round ?sock2 W s1"
      using rc st True by (simp add: rx_round.simps [of sock W s])
    have ib2: "inbox ?sock2 = rx_frames W ns" by simp
    from Cons.IH [OF at1 ib2] show ?thesis
    proof
      assume "rx_round ?sock2 W s1 = Inl Starved"
      then show ?thesis using unf by simp
    next
      assume "\<exists>j s' e' w'. 0 < j \<and> rx_round ?sock2 W s1 = Inr (s', rx_after W e1 w1 ns j ?sock2) \<and>
            rcv_run W e1 w1 (take j ns) = (e', w') \<and> rx_at W e' w' (drop j ns) s'"
      then obtain j s' e' w' where r: "rx_round ?sock2 W s1 = Inr (s', rx_after W e1 w1 ns j ?sock2)"
        and rr: "rcv_run W e1 w1 (take j ns) = (e', w')" and at': "rx_at W e' w' (drop j ns) s'" by blast
      have "rx_after W e1 w1 ns j ?sock2 = rx_after W e w (n # ns) (Suc j) sock"
        using acks by (simp add: ackTo_def)
      then show ?thesis using unf r rr at' run [of j] by (intro disjI2 exI [of _ "Suc j"]) auto
    qed
  qed
qed

lemma rcv_acks_drop:
  assumes "rcv_run W e w (take j ns) = (e', w')"
  shows "drop j (rcv_acks W e w ns) = rcv_acks W e' w' (drop j ns)"
proof (cases "j \<le> length ns")
  case True
  have "length (take j (rcv_acks W e w ns)) = j" using True by simp
  then show ?thesis using rcv_acks_take_drop [OF assms]
    by (metis append_eq_conv_conj)
next
  case False
  then show ?thesis by simp
qed

lemma rx_after_trans:
  assumes "rcv_run W e w (take i ns) = (e1, w1)"
  shows "rx_after W e1 w1 (drop i ns) j (rx_after W e w ns i sock) = rx_after W e w ns (i + j) sock"
    "rcv_run W e1 w1 (take j (drop i ns)) = rcv_run W e w (take (i + j) ns)"
proof -
  have "take (i + j) (rcv_acks W e w ns) = take i (rcv_acks W e w ns) @ take j (rcv_acks W e1 w1 (drop i ns))"
    using rcv_acks_drop [OF assms] by (simp add: take_add)
  then show "rx_after W e1 w1 (drop i ns) j (rx_after W e w ns i sock) = rx_after W e w ns (i + j) sock"
    by (simp add: add.commute)
  show "rcv_run W e1 w1 (take j (drop i ns)) = rcv_run W e w (take (i + j) ns)"
    using assms by (simp add: take_add rcv_run_append)
qed

lemma rx_loop_refines:
  assumes "rx_at W e w ns s" and "inbox sock = rx_frames W ns"
  shows "rx_loop sock msgMax W k s = Inl Starved \<or>
         (\<exists>j s' e' w'. rx_loop sock msgMax W k s = Inr (s', rx_after W e w ns j sock) \<and>
            rcv_run W e w (take j ns) = (e', w') \<and> rx_at W e' w' (drop j ns) s')"
  using assms
proof (induction sock msgMax W k s arbitrary: e w ns rule: rx_loop.induct)
  case (1 sock msgMax W k s)
  show ?case
  proof (cases "k < msgMax")
    case False
    have "rx_after W e w ns 0 sock = sock" using "1.prems"(2) by simp
    then show ?thesis using False "1.prems"(1)
      by (intro disjI2 exI [of _ 0]) (simp add: rx_loop.simps [of sock msgMax W k s])
  next
    case True
    from rx_round_refines [OF "1.prems"] show ?thesis
    proof
      assume "rx_round sock W s = Inl Starved"
      then show ?thesis using True by (simp add: rx_loop.simps [of sock msgMax W k s])
    next
      assume "\<exists>j s' e' w'. 0 < j \<and> rx_round sock W s = Inr (s', rx_after W e w ns j sock) \<and>
            rcv_run W e w (take j ns) = (e', w') \<and> rx_at W e' w' (drop j ns) s'"
      then obtain j1 s1 e1 w1 where r: "rx_round sock W s = Inr (s1, rx_after W e w ns j1 sock)"
        and rr: "rcv_run W e w (take j1 ns) = (e1, w1)" and at1: "rx_at W e1 w1 (drop j1 ns) s1" by blast
      let ?sock1 = "rx_after W e w ns j1 sock"
      have unf: "rx_loop sock msgMax W k s = rx_loop ?sock1 msgMax W (k + 1) s1"
        using True r by (simp add: rx_loop.simps [of sock msgMax W k s])
      have ib1: "inbox ?sock1 = rx_frames W (drop j1 ns)" by simp
      from "1.IH" [OF True r refl at1 ib1] show ?thesis
      proof
        assume "rx_loop ?sock1 msgMax W (k + 1) s1 = Inl Starved"
        then show ?thesis using unf by simp
      next
        assume "\<exists>j s' e' w'. rx_loop ?sock1 msgMax W (k + 1) s1 =
              Inr (s', rx_after W e1 w1 (drop j1 ns) j ?sock1) \<and>
            rcv_run W e1 w1 (take j (drop j1 ns)) = (e', w') \<and> rx_at W e' w' (drop j (drop j1 ns)) s'"
        then obtain j2 s' e' w' where
          l: "rx_loop ?sock1 msgMax W (k + 1) s1 = Inr (s', rx_after W e1 w1 (drop j1 ns) j2 ?sock1)"
          and rr2: "rcv_run W e1 w1 (take j2 (drop j1 ns)) = (e', w')"
          and at': "rx_at W e' w' (drop j2 (drop j1 ns)) s'" by blast
        show ?thesis using unf l rr2 at' rx_after_trans(1) [OF rr, where j = j2 and sock = sock] rx_after_trans(2) [OF rr, where j = j2]
          by (intro disjI2 exI [of _ "j1 + j2"]) (simp add: add.commute)
      qed
    qed
  qed
qed

lemma rx_init_rel:
  assumes W: "0 < W"
  shows "rx_rel W 0 (replicate (nat W) False) (rx_init W)"
proof -
  let ?R = "W * 2 + 1"
  have R: "0 < ?R" using W by simp
  have idx: "nat (x mod ?R) < nat ?R" for x using pos_mod_bound [OF R, of x] pos_mod_sign [OF R, of x] by simp
  have m1: "(- 1) mod ?R = ?R - 1"
  proof -
    have "- 1 = (?R - 1) + (- 1) * ?R" by simp
    then have "(- 1) mod ?R = (?R - 1) mod ?R" by (metis mod_mult_self1)
    then show ?thesis using W by simp
  qed
  show ?thesis using W idx m1 by (simp add: rx_rel_def rx_init_def Let_def)
qed

lemma rcv_spec_in_order:
  assumes W: "0 < W"
  shows "rcv_spec W e (replicate (nat W) False) e = (e + 1, replicate (nat W) False, True)"
proof -
  obtain m where m: "nat W = Suc m" using W by (metis gr0_implies_Suc zero_less_nat_eq)
  show ?thesis using W m by (simp add: rcv_spec_def Let_def replicate_append_same)
qed

lemma rx_round_in_order:
  assumes W: "0 < W" and rel: "rx_rel W e (replicate (nat W) False) s"
    and ib: "inbox sock = e mod (W * 2 + 1) # rest"
  shows "\<exists>s'. rx_round sock W s = Inr (s', ackTo ((e + 1) mod (W * 2 + 1)) (sock\<lparr>inbox := rest\<rparr>)) \<and>
           rx_rel W (e + 1) (replicate (nat W) False) s'"
proof -
  let ?R = "W * 2 + 1"
  have nz: "\<not> replicate (nat W) False ! 0" using W by simp
  obtain s' where st: "rx_step W s (e mod ?R) = Inr (e - e + 1, (e + 1) mod ?R, s')"
    and rel': "rx_rel W (e + 1) (replicate (nat W) False) s'"
    using rx_step_sim [OF W rel nz _ _ rcv_spec_in_order [OF W]] W by auto
  have "rx_round sock W s = Inr (s', ackTo ((e + 1) mod ?R) (sock\<lparr>inbox := rest\<rparr>))"
    using st ib by (simp add: rx_round.simps [of sock W s] recvFrom_def)
  then show ?thesis using rel' by blast
qed

lemma rx_loop_in_order:
  assumes W: "0 < W" and "rx_rel W e (replicate (nat W) False) s"
    and "inbox sock = map (\<lambda>i. (e + int i) mod (W * 2 + 1)) [0..<m] @ rest" and "msgMax = k + int m"
  shows "\<exists>s'. rx_loop sock msgMax W k s =
           Inr (s', sock\<lparr>inbox := rest,
                  trace := trace sock @ map (\<lambda>i. AckTo ((e + int i + 1) mod (W * 2 + 1))) [0..<m]\<rparr>)"
  using assms(2-)
proof (induction m arbitrary: e s sock k)
  case 0
  then have "sock\<lparr>inbox := rest\<rparr> = sock" by simp
  with 0 show ?case by (simp add: rx_loop.simps [of sock k W k s])
next
  case (Suc m)
  let ?R = "W * 2 + 1"
  have ib: "inbox sock = e mod ?R # (map (\<lambda>i. (e + 1 + int i) mod ?R) [0..<m] @ rest)"
    using Suc.prems(2) by (simp only: map_upt_Suc) (simp add: ac_simps)
  obtain s1 where r: "rx_round sock W s = Inr (s1, ackTo ((e + 1) mod ?R) (sock\<lparr>inbox := map (\<lambda>i. (e + 1 + int i) mod ?R) [0..<m] @ rest\<rparr>))"
    and rel1: "rx_rel W (e + 1) (replicate (nat W) False) s1"
    using rx_round_in_order [OF W Suc.prems(1) ib] by blast
  let ?sock1 = "ackTo ((e + 1) mod ?R) (sock\<lparr>inbox := map (\<lambda>i. (e + 1 + int i) mod ?R) [0..<m] @ rest\<rparr>)"
  have lt: "k < msgMax" using Suc.prems(3) by simp
  have unf: "rx_loop sock msgMax W k s = rx_loop ?sock1 msgMax W (k + 1) s1"
    using lt r by (simp add: rx_loop.simps [of sock msgMax W k s])
  obtain s' where l: "rx_loop ?sock1 msgMax W (k + 1) s1 =
      Inr (s', ?sock1\<lparr>inbox := rest,
             trace := trace ?sock1 @ map (\<lambda>i. AckTo ((e + 1 + int i + 1) mod ?R)) [0..<m]\<rparr>)"
    using Suc.IH [OF rel1, of ?sock1 "k + 1"] Suc.prems(3) by auto
  have "map (\<lambda>i. AckTo ((e + int i + 1) mod ?R)) [0..<Suc m] =
        AckTo ((e + 1) mod ?R) # map (\<lambda>i. AckTo ((e + 1 + int i + 1) mod ?R)) [0..<m]"
    by (simp only: map_upt_Suc) (simp add: ac_simps)
  then show ?case using unf l by (simp add: ackTo_def)
qed

section \<open>Properties of the receiver\<close>

text \<open>
  C2 (refinement).  Against any stream of frames a Go-Back-N sender of window
  \<open>windowSize\<close> can produce, each acknowledgment \<open>serverEarlyRetrans\<close> sends is
  the residue of the abstract receiver's next expected number after the frames consumed
  so far: the code either waits for more input or returns having consumed a prefix of
  the stream and acknowledged it exactly as the abstract receiver does.
\<close>

theorem serverEarlyRetrans_refines:
  assumes "0 < W" and "rcv_ok W 0 (replicate (nat W) False) ns"
    and "inbox sock = map (\<lambda>n. n mod (W * 2 + 1)) ns"
  shows "serverEarlyRetrans sock msgMax W = Inl Starved \<or>
         (\<exists>j. serverEarlyRetrans sock msgMax W =
            Inr (sock\<lparr>inbox := map (\<lambda>n. n mod (W * 2 + 1)) (drop j ns),
                      trace := trace sock @ map (\<lambda>a. AckTo (a mod (W * 2 + 1)))
                                 (take j (rcv_acks W 0 (replicate (nat W) False) ns))\<rparr>))"
proof -
  have at: "rx_at W 0 (replicate (nat W) False) ns (rx_init W)"
    using assms(1,2) rx_init_rel [OF assms(1)] by (simp add: rx_at_def)
  from rx_loop_refines [OF at assms(3), of msgMax 0] show ?thesis
    by (auto simp: serverEarlyRetrans_def)
qed

theorem serverEarlyRetrans_refines_witness:
  "0 < (2::int) \<and> rcv_ok 2 0 (replicate (nat 2) False) [1, 0, 2] \<and>
   inbox \<lparr>polls = [], inbox = [1, 0, 2], clock = [], trace = []\<rparr> = map (\<lambda>n. n mod (2 * 2 + 1)) [1, 0, 2] \<and>
   (serverEarlyRetrans \<lparr>polls = [], inbox = [1, 0, 2], clock = [], trace = []\<rparr> 2 2 = Inl Starved \<or>
    (\<exists>j. serverEarlyRetrans \<lparr>polls = [], inbox = [1, 0, 2], clock = [], trace = []\<rparr> 2 2 =
       Inr (\<lparr>polls = [], inbox = [1, 0, 2], clock = [], trace = []\<rparr>\<lparr>inbox := map (\<lambda>n. n mod (2 * 2 + 1)) (drop j [1, 0, 2]),
              trace := [] @ map (\<lambda>a. AckTo (a mod (2 * 2 + 1)))
                (take j (rcv_acks 2 0 (replicate (nat 2) False) [1, 0, 2]))\<rparr>)))"
  apply (intro conjI)
     apply simp
    apply (simp add: rcv_spec_def Let_def numeral_2_eq_2)
   apply simp
  using serverEarlyRetrans_refines [of 2 "[1, 0, 2]" "\<lparr>polls = [], inbox = [1, 0, 2], clock = [], trace = []\<rparr>" 2]
  apply (simp add: rcv_spec_def Let_def numeral_2_eq_2)
  done

text \<open>
  C20 (liveness).  When the frames arrive in order, \<open>serverEarlyRetrans\<close> returns
  after consuming exactly \<open>max\<close> frames and acknowledges frame \<open>i\<close> with
  \<open>(i + 1) mod (2 windowSize + 1)\<close>.
\<close>

theorem serverEarlyRetrans_in_order:
  assumes "0 < W" and "0 \<le> msgMax"
    and "inbox sock = map (\<lambda>i. int i mod (W * 2 + 1)) [0..<nat msgMax] @ rest"
  shows "serverEarlyRetrans sock msgMax W =
           Inr (sock\<lparr>inbox := rest,
                     trace := trace sock @ map (\<lambda>i. AckTo ((int i + 1) mod (W * 2 + 1))) [0..<nat msgMax]\<rparr>)"
proof -
  have ib: "inbox sock = map (\<lambda>i. (0 + int i) mod (W * 2 + 1)) [0..<nat msgMax] @ rest"
    using assms(3) by simp
  obtain s' where "rx_loop sock msgMax W 0 (rx_init W) =
      Inr (s', sock\<lparr>inbox := rest,
             trace := trace sock @ map (\<lambda>i. AckTo ((0 + int i + 1) mod (W * 2 + 1))) [0..<nat msgMax]\<rparr>)"
    using rx_loop_in_order [OF assms(1) rx_init_rel [OF assms(1)] ib, of msgMax 0] assms(2) by auto
  then show ?thesis by (simp add: serverEarlyRetrans_def)
qed

theorem serverEarlyRetrans_in_order_witness:
  "0 < (2::int) \<and> 0 \<le> (3::int) \<and>
   inbox \<lparr>polls = [], inbox = [0, 1, 2, 7], clock = [], trace = []\<rparr> =
     map (\<lambda>i. int i mod (2 * 2 + 1)) [0..<nat 3] @ [7] \<and>
   serverEarlyRetrans \<lparr>polls = [], inbox = [0, 1, 2, 7], clock = [], trace = []\<rparr> 3 2 =
     Inr \<lparr>polls = [], inbox = [7], clock = [], trace = [AckTo 1, AckTo 2, AckTo 3]\<rparr>"
  using serverEarlyRetrans_in_order [of 2 3 "\<lparr>polls = [], inbox = [0, 1, 2, 7], clock = [], trace = []\<rparr>" "[7]"]
  by (simp add: upt_rec)

text \<open>
  C22 (safety).  On frames whose sequence numbers lie in \<open>[0, 2 windowSize + 1)\<close>,
  \<open>serverEarlyRetrans\<close> never indexes its buffer out of bounds: it only ever waits
  for input or returns, and every acknowledgment it sent lies in the sequence range.
\<close>

theorem serverEarlyRetrans_safe:
  assumes "0 < W" and "list_all (\<lambda>m. 0 \<le> m \<and> m < W * 2 + 1) (inbox sock)"
  shows "serverEarlyRetrans sock msgMax W = Inl Starved \<or>
         (\<exists>sock' acks. serverEarlyRetrans sock msgMax W = Inr sock' \<and>
            trace sock' = trace sock @ map AckTo acks \<and> list_all (\<lambda>a. 0 \<le> a \<and> a < W * 2 + 1) acks)"
  using rx_loop_safe [OF rx_init_inv [OF assms(1)] assms(2), of msgMax 0]
  by (auto simp: serverEarlyRetrans_def acks_in_range_def)

theorem serverEarlyRetrans_safe_witness:
  "0 < (2::int) \<and> list_all (\<lambda>m. 0 \<le> m \<and> m < 2 * 2 + 1) [4, 4, 1::int] \<and>
   (serverEarlyRetrans \<lparr>polls = [], inbox = [4, 4, 1], clock = [], trace = []\<rparr> 2 2 = Inl Starved \<or>
    (\<exists>sock' acks. serverEarlyRetrans \<lparr>polls = [], inbox = [4, 4, 1], clock = [], trace = []\<rparr> 2 2 = Inr sock' \<and>
       trace sock' = [] @ map AckTo acks \<and> list_all (\<lambda>a. 0 \<le> a \<and> a < 2 * 2 + 1) acks))"
  using serverEarlyRetrans_safe [of 2 "\<lparr>polls = [], inbox = [4, 4, 1], clock = [], trace = []\<rparr>" 2]
  by simp

text \<open>
  C29 (functional).  A copy of one of the \<open>windowSize + 1\<close> most recently
  acknowledged frames has \<open>offset \<le> 0\<close>: the receiver leaves its state unchanged
  (no mark, no advance of \<open>lastAckSent\<close>) and repeats the cumulative acknowledgment.
\<close>

theorem rx_step_stale_frame:
  assumes inv: "rx_inv W s" and lo: "lastAckSent s - W \<le> n" and hi: "n \<le> lastAckSent s"
  shows "rx_step W s (n mod (W * 2 + 1)) =
           Inr (n - lastAckSent s, (lastAckSent s + 1) mod (W * 2 + 1), s) \<and> n - lastAckSent s \<le> 0"
proof -
  let ?R = "W * 2 + 1" and ?e = "lastAckSent s + 1"
  have W: "0 < W" and las: "0 \<le> lastAckSent s" using inv by (simp_all add: rx_inv_def Let_def)
  note rel = rx_inv_rel(1) [OF inv] and nz = rx_inv_rel(2) [OF inv]
  have off: "rx_offset W s (n mod ?R) = n - lastAckSent s"
    using rx_offset_rel [OF W rel, of n] lo hi by simp
  have "rx_fold ?R (s\<lparr>rbuf := rbuf s\<rparr>) = Inr s" using rx_fold_stop [OF W rel nz] by simp
  then show ?thesis using off hi las W by (simp add: rx_step_def Let_def)
qed

theorem rx_step_stale_frame_witness:
  "rx_inv 2 (rx_init 2) \<and> lastAckSent (rx_init 2) - 2 \<le> 3 \<and> 3 \<le> lastAckSent (rx_init 2) \<and>
   rx_step 2 (rx_init 2) (3 mod (2 * 2 + 1)) =
     Inr (3 - lastAckSent (rx_init 2), (lastAckSent (rx_init 2) + 1) mod (2 * 2 + 1), rx_init 2) \<and>
   3 - lastAckSent (rx_init 2) \<le> 0"
proof -
  have inv: "rx_inv 2 (rx_init 2)"
    by (simp add: rx_inv_def rx_init_def Let_def numeral_2_eq_2 upto.simps)
  have "lastAckSent (rx_init 2) = 4" by (simp add: rx_init_def)
  then show ?thesis using inv rx_step_stale_frame [OF inv, of 3] by simp
qed

text \<open>
  C35 (error).  A frame number outside the sequence range is not rejected.  The
  remainder of line 216 is C's truncating \<open>%\<close>, so a number above the range gives a
  negative remainder and an offset above \<open>windowSize\<close>.  Whenever the offset of such a
  number is positive, the write \<open>buffer[message[0]]\<close> of line 218 falls outside the
  \<open>seqRange\<close>-element array, and the round of the do-while ends in that fault.
\<close>

theorem rx_round_malformed_frame:
  assumes inv: "rx_inv W s" and out: "seq < 0 \<or> W * 2 + 1 \<le> seq" and pos: "0 < rx_offset W s seq"
    and rv: "recvFrom sock = Inr (seq, sock1)"
  shows "rx_step W s seq = Inl (OutOfBounds seq) \<and> rx_round sock W s = Inl (OutOfBounds seq)"
proof -
  have "length (rbuf s) = nat (W * 2 + 1)" using inv by (simp add: rx_inv_def Let_def)
  then have "c_write (rbuf s) seq True = Inl (OutOfBounds seq)" using out by (auto simp: c_write_def)
  then have st: "rx_step W s seq = Inl (OutOfBounds seq)" using pos by (simp add: rx_step_def Let_def)
  then show ?thesis using rv by (simp add: rx_round.simps [of sock W s])
qed

theorem rx_round_malformed_frame_witness:
  "rx_inv 2 (rx_init 2) \<and> ((9::int) < 0 \<or> 2 * 2 + 1 \<le> (9::int)) \<and> 0 < rx_offset 2 (rx_init 2) 9 \<and>
   recvFrom \<lparr>polls = [], inbox = [9], clock = [], trace = []\<rparr> =
     Inr (9, \<lparr>polls = [], inbox = [], clock = [], trace = []\<rparr>) \<and>
   rx_round \<lparr>polls = [], inbox = [9], clock = [], trace = []\<rparr> 2 (rx_init 2) = Inl (OutOfBounds 9)"
proof -
  have inv: "rx_inv 2 (rx_init 2)" by (rule rx_init_inv) simp
  have pos: "0 < rx_offset 2 (rx_init 2) 9" by (simp add: rx_offset_def rx_init_def)
  have rv: "recvFrom \<lparr>polls = [], inbox = [9], clock = [], trace = []\<rparr> =
     Inr (9, \<lparr>polls = [], inbox = [], clock = [], trace = []\<rparr>)" by (simp add: recvFrom_def)
  show ?thesis using inv pos rv rx_round_malformed_frame [OF inv _ pos rv] by simp
qed

end
