(* ===== verification/ReceiverState.thy ===== *)
theory ReceiverState
  imports WindowReceiver
begin

text \<open>
  The receiver of \<^verbatim>\<open>serverEarlyRetrans\<close> as a state machine: \<open>rx_reach W\<close>
  holds of the states the do-while body \<open>rx_step\<close> reaches from \<open>rx_init\<close> on
  frames numbered within the sequence range.  This theory shows the executable
  invariant \<open>rx_inv\<close> of every reachable state by rule induction, the termination
  of the fold loop on every well-shaped buffer, the agreement of the code's
  \<open>offset > 0\<close> test with the documented acceptance window, that a frame
  number survives its encoding as a sequence number, and three properties of
  section 8 of the specification for one do-while step: no-gap advancement,
  idempotent handling of a re-delivered frame and cumulative-acknowledgment
  monotonicity.  \<open>rx_step_abs\<close> relates a concrete step to a step of the
  abstract receiver \<open>rcv_spec\<close>, on which these are read off.
\<close>

section \<open>Reachable receiver states\<close>

inductive rx_reach :: "int \<Rightarrow> rx_state \<Rightarrow> bool" for W :: int where
  init: "0 < W \<Longrightarrow> rx_reach W (rx_init W)"
| step: "rx_reach W s \<Longrightarrow> 0 \<le> seq \<Longrightarrow> seq < W * 2 + 1 \<Longrightarrow>
           rx_step W s seq = Inr (offset, ack, s') \<Longrightarrow> rx_reach W s'"

text \<open>
  The acceptance window as the specification documents it: a frame is accepted when
  its sequence number is one of the \<open>windowSize\<close> numbers from the next expected one
  on, modulo the sequence range.
\<close>

definition rx_accepts :: "int \<Rightarrow> rx_state \<Rightarrow> int \<Rightarrow> bool" where
  "rx_accepts W s seq \<longleftrightarrow> (seq - (lastAckSent s + 1)) mod (W * 2 + 1) < W"

section \<open>Helper lemmas\<close>

lemma takeWhile_id_nth: "i < length (takeWhile id xs) \<Longrightarrow> xs ! i"
  by (metis id_apply nth_mem set_takeWhileD takeWhile_nth)

text \<open>What one step of the abstract receiver does to a frame number \<open>n\<close> of the window.\<close>

lemma rcv_spec_redeliver:
  assumes W: "0 < W" and len: "length w = nat W" and nz: "\<not> w ! 0" and hi: "n < e + W"
    and spec: "rcv_spec W e w n = (e', w', acc)"
  shows "e \<le> e'" "e' \<le> e + W" "\<not> acc \<Longrightarrow> e' = e" "0 \<le> n - e' \<Longrightarrow> w' ! nat (n - e')"
    "0 \<le> d \<Longrightarrow> d < e' - e \<Longrightarrow> w ! nat d \<or> (d = n - e \<and> acc)"
proof -
  let ?k = "n - e"
  let ?w1 = "if 0 \<le> ?k \<and> ?k < W then w[nat ?k := True] else w"
  let ?c = "length (takeWhile id ?w1)"
  note sp = spec [unfolded rcv_spec_def Let_def, symmetric]
  have e': "e' = e + int ?c" and w': "w' = drop ?c ?w1 @ replicate ?c False"
    and acc: "acc = (0 \<le> ?k \<and> ?k < W)"
    using sp by (simp_all only: prod.inject)
  have l1: "length ?w1 = length w" by simp
  have c: "?c \<le> length w" using length_takeWhile_le [of id ?w1] unfolding l1 .
  show "e \<le> e'" using e' by simp
  show "e' \<le> e + W" using e' c len W by simp
  have w0: "w \<noteq> []" using len W by auto
  show "e' = e" if "\<not> acc"
  proof -
    have tw: "takeWhile id w = []" using w0 nz by (cases w) simp_all
    have "\<not> (0 \<le> ?k \<and> ?k < W)" using that acc by simp
    then have w1: "?w1 = w" by (rule if_not_P)
    have "e' = e + int (length (takeWhile id w))" using e' unfolding w1 .
    then show ?thesis using tw by simp
  qed
  show "w' ! nat (n - e')" if k: "0 \<le> n - e'"
  proof -
    have a: "0 \<le> ?k" "?k < W" using k e' hi by simp_all
    then have w1: "?w1 = w[nat ?k := True]" by (rule if_P [OF conjI])
    let ?v = "w[nat ?k := True]"
    let ?d = "length (takeWhile id ?v)"
    have e2: "e' = e + int ?d" using e' unfolding w1 .
    have w2: "w' = drop ?d ?v @ replicate ?d False" using w' unfolding w1 .
    have d: "?d \<le> length w" using length_takeWhile_le [of id ?v] by simp
    have "n - e' < int (length w) - int ?d" using a e2 len W by simp
    then have lt: "nat (n - e') < length (drop ?d ?v)" using k d by (simp add: nat_less_iff of_nat_diff)
    have idx: "?d + nat (n - e') = nat ?k" using e2 k by simp
    have "w' ! nat (n - e') = ?v ! nat ?k"
      using lt d idx by (simp add: w2 nth_append nth_drop)
    also have "\<dots>" using a len by simp
    finally show ?thesis .
  qed
  show "w ! nat d \<or> (d = n - e \<and> acc)" if d: "0 \<le> d" "d < e' - e"
  proof -
    have dc: "nat d < ?c" using d e' by simp
    have t: "?w1 ! nat d" by (rule takeWhile_id_nth [OF dc])
    have dl: "nat d < length w" using dc c by simp
    show ?thesis
    proof (cases acc)
      case True
      then have k: "0 \<le> ?k" "?k < W" using acc by simp_all
      then have w1: "?w1 = w[nat ?k := True]" by (rule if_P [OF conjI])
      have "w[nat ?k := True] ! nat d" using t unfolding w1 .
      then have "nat d = nat ?k \<or> w ! nat d" using dl by (metis nth_list_update_neq)
      then show ?thesis using d k True by (auto simp: eq_nat_nat_iff)
    next
      case False
      then have "\<not> (0 \<le> ?k \<and> ?k < W)" using acc by simp
      then have "?w1 = w" by (rule if_not_P)
      then show ?thesis using t by simp
    qed
  qed
qed

text \<open>A fault-free step of the concrete receiver from a state satisfying \<open>rx_inv\<close> is a
  step of the abstract receiver on the frame number the sequence number stands for.\<close>

lemma rx_step_abs:
  assumes inv: "rx_inv W s" and seq: "0 \<le> seq" "seq < W * 2 + 1"
    and st: "rx_step W s seq = Inr (off, ack, s')"
  obtains n e' w' acc where "lastAckSent s - W \<le> n" "n < lastAckSent s + 1 + W" "n mod (W * 2 + 1) = seq"
    "rcv_spec W (lastAckSent s + 1) (rx_window W s) n = (e', w', acc)"
    "rx_rel W e' w' s'" "\<not> w' ! 0" "off = n - lastAckSent s" "ack = e' mod (W * 2 + 1)" "acc \<longleftrightarrow> 0 < off"
proof -
  let ?R = "W * 2 + 1" and ?e = "lastAckSent s + 1" and ?w = "rx_window W s"
  have W: "0 < W" by (rule rx_inv_pos [OF inv])
  note rel = rx_inv_rel(1) [OF inv] and nz = rx_inv_rel(2) [OF inv]
  obtain n where lo: "?e - W - 1 \<le> n" and hi: "n < ?e + W" and nm: "n mod ?R = seq"
    using residue_in_window [OF W seq] by blast
  obtain e' w' acc where spec: "rcv_spec W ?e ?w n = (e', w', acc)" by (cases "rcv_spec W ?e ?w n") auto
  obtain s1 where st1: "rx_step W s (n mod ?R) = Inr (n - ?e + 1, e' mod ?R, s1)"
    and rel1: "rx_rel W e' w' s1" and nz1: "\<not> w' ! 0" and acc: "acc \<longleftrightarrow> 0 < n - ?e + 1"
    using rx_step_sim [OF W rel nz lo hi spec] by blast
  have "s1 = s'" "off = n - ?e + 1" "ack = e' mod ?R" using st st1 nm by simp_all
  then show ?thesis using that [of n e' w' acc] lo hi nm spec rel1 nz1 acc by simp
qed

lemma rx_advance:
  assumes W: "0 < W" and rel: "rx_rel W e' w' s'" and e: "e \<le> e'" "e' \<le> e + W"
  shows "(lastAckSent s' - (e - 1)) mod (W * 2 + 1) = e' - e"
proof -
  let ?R = "W * 2 + 1"
  have "(lastAckSent s' - (e - 1)) mod ?R = ((e' - 1) mod ?R - (e - 1)) mod ?R"
    using rx_relD(3) [OF rel] by simp
  also have "\<dots> = (e' - 1 - (e - 1)) mod ?R" by (rule mod_diff_left_eq)
  also have "\<dots> = (e' - e) mod ?R" by (simp add: algebra_simps)
  also have "\<dots> = e' - e" using e W by simp
  finally show ?thesis .
qed

text \<open>A frame delivered again right after a fault-free step: the step repeats with the
  same acknowledgment and state, and with the offset reduced by how far the step moved the
  next expected frame; an out-of-order frame (\<open>1 < off\<close>) moved nothing.\<close>

lemma rx_step_repeat:
  assumes inv: "rx_inv W s" and seq: "0 \<le> seq" "seq < W * 2 + 1"
    and st: "rx_step W s seq = Inr (off, ack, s')"
  shows "\<exists>e'. rx_step W s' seq = Inr (off - (e' - (lastAckSent s + 1)), ack, s') \<and>
           (1 < off \<longrightarrow> e' = lastAckSent s + 1)"
proof -
  let ?R = "W * 2 + 1" and ?e = "lastAckSent s + 1" and ?w = "rx_window W s"
  have W: "0 < W" by (rule rx_inv_pos [OF inv])
  note rel = rx_inv_rel(1) [OF inv] and nz = rx_inv_rel(2) [OF inv]
  obtain n e' w' acc where lo: "lastAckSent s - W \<le> n" and hi: "n < ?e + W" and nm: "n mod ?R = seq"
    and spec: "rcv_spec W ?e ?w n = (e', w', acc)" and rel1: "rx_rel W e' w' s'" and nz1: "\<not> w' ! 0"
    and ack: "ack = e' mod ?R" and acc: "acc \<longleftrightarrow> 0 < off" and off: "off = n - lastAckSent s"
    using rx_step_abs [OF inv seq st] by metis
  have len: "length ?w = nat W" using rx_relD(2) [OF rel] .
  note f = rcv_spec_redeliver [OF W len nz hi spec]
  have lo': "e' - W - 1 \<le> n"
  proof (cases acc)
    case True
    then show ?thesis using f(2) acc off by simp
  next
    case False
    then show ?thesis using f(3) lo by simp
  qed
  have hi': "n < e' + W" using hi f(1) by simp
  have off': "rx_offset W s' seq = n - e' + 1" using rx_offset_rel [OF W rel1 lo' hi'] nm by simp
  have buf: "(if rx_offset W s' seq > 0 then c_write (rbuf s') seq True else Inr (rbuf s')) = Inr (rbuf s')"
  proof (cases "rx_offset W s' seq > 0")
    case True
    then have k: "0 \<le> n - e'" "n - e' < W" using off' hi' by simp_all
    have "rbuf s' ! nat ((e' + (n - e')) mod ?R) = w' ! nat (n - e')"
      using rx_relD(5) [OF rel1 k] by simp
    then have "rbuf s' ! nat seq" using f(4) [OF k(1)] nm by simp
    moreover have "seq < int (length (rbuf s'))" using rx_relD(1) [OF rel1] seq W by simp
    ultimately show ?thesis using True seq by (simp add: list_update_same_conv)
  qed simp
  have fold: "rx_fold ?R (s'\<lparr>rbuf := rbuf s'\<rparr>) = Inr s'" using rx_fold_stop [OF W rel1 nz1] by simp
  have "(lastAckSent s' + 1) smod ?R = e' mod ?R"
  proof -
    have "lastAckSent s' = (e' - 1) mod ?R" using rx_relD(3) [OF rel1] by simp
    moreover have "0 \<le> (e' - 1) mod ?R + 1" using W by simp
    ultimately show ?thesis using W by (simp add: mod_add_left_eq)
  qed
  then have "rx_step W s' seq = Inr (n - e' + 1, ack, s')"
    using buf fold ack off' by (simp add: rx_step_def Let_def)
  moreover have "e' = ?e" if o: "1 < off"
  proof (rule ccontr)
    assume "e' \<noteq> ?e"
    then have "0 < e' - ?e" using f(1) by simp
    then have "?w ! nat 0 \<or> (0 = n - ?e \<and> acc)" using f(5) [of 0] by simp
    then show False using nz o off by simp
  qed
  ultimately show ?thesis using off by (intro exI [of _ e']) simp
qed


section \<open>Properties of the receiver state machine\<close>

text \<open>
  C13 (invariant).  Every state the receiver reaches on frames numbered within the
  sequence range satisfies \<open>rx_inv\<close> (the queue pointers in range, the slot after
  \<open>lastAckSent\<close> and the \<open>windowSize\<close> slots past the window clear), and from
  it every such frame is processed without a fault into a state satisfying it again.
\<close>

theorem rx_reach_invariant:
  assumes "rx_reach W s"
  shows "rx_inv W s \<and>
         (\<forall>seq. 0 \<le> seq \<and> seq < W * 2 + 1 \<longrightarrow>
            (\<exists>ack s'. rx_step W s seq = Inr (rx_offset W s seq, ack, s') \<and> rx_inv W s'))"
proof -
  have inv: "rx_inv W s" using assms
  proof (induction rule: rx_reach.induct)
    case init
    then show ?case by (rule rx_init_inv)
  next
    case (step s seq offset ack s')
    then show ?case using rx_step_inv [of W s seq] by auto
  qed
  then show ?thesis using rx_step_inv [OF inv] by blast
qed

theorem rx_reach_invariant_witness:
  "rx_reach 2 \<lparr>largestAccFrame = 1, lastAckSent = 4, rbuf = [False, True, False, False, False]\<rparr> \<and>
   rx_inv 2 \<lparr>largestAccFrame = 1, lastAckSent = 4, rbuf = [False, True, False, False, False]\<rparr>"
proof -
  have st: "rx_step 2 (rx_init 2) 1 =
      Inr (2, 0, \<lparr>largestAccFrame = 1, lastAckSent = 4, rbuf = [False, True, False, False, False]\<rparr>)"
    by (simp add: rx_step_def rx_offset_def rx_init_def rx_fold.simps c_read_def c_write_def numeral_2_eq_2 eval_nat_numeral)
  have r: "rx_reach 2 \<lparr>largestAccFrame = 1, lastAckSent = 4, rbuf = [False, True, False, False, False]\<rparr>"
    by (rule rx_reach.step [OF rx_reach.init _ _ st]) simp_all
  show ?thesis using r rx_reach_invariant [OF r] by blast
qed

text \<open>
  C27 (termination).  The fold loop of lines 221-225 ends without a fault on every
  buffer of the right size and every \<open>lastAckSent\<close> in range, even a corrupted
  buffer whose flags are all set: each pass clears the flag behind the new
  \<open>lastAckSent\<close>.
\<close>

theorem rx_fold_terminates:
  assumes "0 < R" and "length (rbuf s) = nat R" and "0 \<le> lastAckSent s" and "lastAckSent s < R"
  shows "\<exists>s'. rx_fold R s = Inr s' \<and> length (rbuf s') = nat R \<and>
           0 \<le> lastAckSent s' \<and> lastAckSent s' < R"
  using assms
proof (induction R s rule: rx_fold.induct)
  case (1 R s)
  let ?j = "(lastAckSent s + 1) smod R"
  have j: "?j = (lastAckSent s + 1) mod R"
    using "1.prems"(3) "1.prems"(1) by (intro smod_eq_mod_nonneg) simp_all
  have jr: "0 \<le> ?j" "?j < int (length (rbuf s))" using j "1.prems"(2) "1.prems"(1) by simp_all
  have ir: "0 \<le> lastAckSent s" "lastAckSent s < int (length (rbuf s))" using "1.prems" by simp_all
  show ?case
  proof (cases "rbuf s ! nat ?j")
    case False
    then show ?thesis using jr "1.prems" by (simp add: rx_fold.simps [of R s])
  next
    case True
    let ?s1 = "s\<lparr>rbuf := (rbuf s)[nat (lastAckSent s) := False], lastAckSent := ?j,
                 largestAccFrame := (largestAccFrame s + 1) smod R\<rparr>"
    have rd: "c_read (rbuf s) ?j = Inr True" and wr: "c_write (rbuf s) (lastAckSent s) False = Inr (rbuf ?s1)"
      using jr ir True by simp_all
    have unf: "rx_fold R s = rx_fold R ?s1" using rd wr by (simp add: rx_fold.simps [of R s])
    have "\<exists>s'. rx_fold R ?s1 = Inr s' \<and> length (rbuf s') = nat R \<and> 0 \<le> lastAckSent s' \<and> lastAckSent s' < R"
      using "1.IH" [OF rd _ wr] "1.prems"(1,2) jr j by simp
    then show ?thesis using unf by simp
  qed
qed

theorem rx_fold_terminates_witness:
  "rx_fold 5 \<lparr>largestAccFrame = 1, lastAckSent = 0, rbuf = replicate 5 True\<rparr> =
     Inr \<lparr>largestAccFrame = 0, lastAckSent = 4, rbuf = [False, False, False, False, True]\<rparr> \<and>
   (\<exists>s'. rx_fold 5 \<lparr>largestAccFrame = 1, lastAckSent = 0, rbuf = replicate 5 True\<rparr> = Inr s' \<and>
      length (rbuf s') = nat 5 \<and> 0 \<le> lastAckSent s' \<and> lastAckSent s' < 5)"
proof -
  have "rx_fold 5 \<lparr>largestAccFrame = 1, lastAckSent = 0, rbuf = replicate 5 True\<rparr> =
     Inr \<lparr>largestAccFrame = 0, lastAckSent = 4, rbuf = [False, False, False, False, True]\<rparr>"
    by code_simp
  then show ?thesis using rx_fold_terminates [of 5 "\<lparr>largestAccFrame = 1, lastAckSent = 0, rbuf = replicate 5 True\<rparr>"]
    by simp
qed

text \<open>
  C25 (equivalence).  On reachable states, the code's test \<open>offset > 0\<close> with
  \<open>offset = windowSize - (seqRange + largestAccFrame - seq) % seqRange\<close> is the
  documented acceptance rule: the sequence number is one of the \<open>windowSize\<close>
  numbers from the next expected one on, modulo the sequence range.
\<close>

theorem rx_offset_accepts:
  assumes inv: "rx_inv W s" and seq: "0 \<le> seq" "seq < W * 2 + 1"
  shows "0 < rx_offset W s seq \<longleftrightarrow> rx_accepts W s seq"
proof -
  let ?R = "W * 2 + 1" and ?e = "lastAckSent s + 1"
  have W: "0 < W" by (rule rx_inv_pos [OF inv])
  obtain n where lo: "?e - W - 1 \<le> n" and hi: "n < ?e + W" and nm: "n mod ?R = seq"
    using residue_in_window [OF W seq] by blast
  have off: "rx_offset W s seq = n - ?e + 1"
    using rx_offset_rel [OF W rx_inv_rel(1) [OF inv] lo hi] nm by simp
  have "(seq - ?e) mod ?R = (n mod ?R - ?e) mod ?R" using nm by simp
  also have "\<dots> = (n - ?e) mod ?R" by (rule mod_diff_left_eq)
  finally have "(seq - ?e) mod ?R = (n - ?e) mod ?R" .
  moreover have "(n - ?e) mod ?R = (if 0 \<le> n - ?e then n - ?e else n - ?e + ?R)"
  proof (cases "0 \<le> n - ?e")
    case True
    then show ?thesis using hi W by simp
  next
    case False
    then show ?thesis using mod_shift_down [of "n - ?e" ?R] lo by simp
  qed
  ultimately show ?thesis using off lo hi by (auto simp: rx_accepts_def)
qed

theorem rx_offset_accepts_witness:
  "rx_inv 2 (rx_init 2) \<and> 0 \<le> (1::int) \<and> (1::int) < 2 * 2 + 1 \<and>
   (0 < rx_offset 2 (rx_init 2) 1 \<longleftrightarrow> rx_accepts 2 (rx_init 2) 1)"
proof -
  have inv: "rx_inv 2 (rx_init 2)" by (rule rx_init_inv) simp
  show ?thesis using inv rx_offset_accepts [OF inv, of 1] by simp
qed

text \<open>
  C26 (roundtrip).  Encoding a frame number \<open>k\<close> as the sequence number
  \<open>k mod (2 windowSize + 1)\<close> loses nothing the receiver needs: for every
  \<open>k\<close> within \<open>windowSize\<close> of \<open>lastAckSent\<close>, \<open>lastAckSent\<close> plus the
  receiver's offset of the sequence number gives back \<open>k\<close>.
\<close>

theorem rx_sequence_roundtrip:
  assumes inv: "rx_inv W s" and k: "lastAckSent s - W \<le> k" "k \<le> lastAckSent s + W"
  shows "lastAckSent s + rx_offset W s (k mod (W * 2 + 1)) = k"
proof -
  have W: "0 < W" by (rule rx_inv_pos [OF inv])
  show ?thesis using rx_offset_rel [OF W rx_inv_rel(1) [OF inv], of k] k by simp
qed

theorem rx_sequence_roundtrip_witness:
  "rx_inv 2 (rx_init 2) \<and> lastAckSent (rx_init 2) - 2 \<le> 6 \<and> (6::int) \<le> lastAckSent (rx_init 2) + 2 \<and>
   lastAckSent (rx_init 2) + rx_offset 2 (rx_init 2) (6 mod (2 * 2 + 1)) = 6"
proof -
  have inv: "rx_inv 2 (rx_init 2)" by (rule rx_init_inv) simp
  have "lastAckSent (rx_init 2) = 4" by (simp add: rx_init_def)
  then show ?thesis using inv rx_sequence_roundtrip [OF inv, of 6] by simp
qed

text \<open>
  C15 (safety).  Idempotent duplicate handling (specification, section 8): a frame
  delivered again right after it was processed changes neither the receiver's state
  nor the acknowledgment it sends, whether the first delivery was accepted, buffered
  out of order or discarded as stale.  The cursors are never advanced twice by one
  frame (the message count of the do-while is another matter, see
  \<open>rx_round_counts_duplicate\<close>).
\<close>

theorem rx_step_redelivery:
  assumes inv: "rx_inv W s" and seq: "0 \<le> seq" "seq < W * 2 + 1"
    and st: "rx_step W s seq = Inr (off, ack, s')"
  shows "\<exists>off'. rx_step W s' seq = Inr (off', ack, s')"
  using rx_step_repeat [OF inv seq st] by blast

theorem rx_step_redelivery_witness:
  "rx_inv 2 (rx_init 2) \<and> 0 \<le> (1::int) \<and> (1::int) < 2 * 2 + 1 \<and>
   rx_step 2 (rx_init 2) 1 =
     Inr (2, 0, \<lparr>largestAccFrame = 1, lastAckSent = 4, rbuf = [False, True, False, False, False]\<rparr>) \<and>
   (\<exists>off'. rx_step 2 \<lparr>largestAccFrame = 1, lastAckSent = 4, rbuf = [False, True, False, False, False]\<rparr> 1 =
      Inr (off', 0, \<lparr>largestAccFrame = 1, lastAckSent = 4, rbuf = [False, True, False, False, False]\<rparr>))"
proof -
  have inv: "rx_inv 2 (rx_init 2)" by (rule rx_init_inv) simp
  have st: "rx_step 2 (rx_init 2) 1 =
      Inr (2, 0, \<lparr>largestAccFrame = 1, lastAckSent = 4, rbuf = [False, True, False, False, False]\<rparr>)"
    by code_simp
  show ?thesis using inv st rx_step_redelivery [OF inv _ _ st] by simp
qed

text \<open>
  C32 (error).  A duplicate of a frame buffered out of order counts as a new message.
  Let a step from a state satisfying \<open>rx_inv\<close> buffer a frame ahead of the next expected
  one (\<open>offset > 1\<close>), and let the frame be delivered again.  Then the step repeats with
  the same positive offset, acknowledgment and state, and the do-while of lines 211-229
  ends its round on it, so the for loop counts a message although nothing new arrived.
\<close>

theorem rx_round_counts_duplicate:
  assumes inv: "rx_inv W s" and seq: "0 \<le> seq" "seq < W * 2 + 1"
    and st: "rx_step W s seq = Inr (off, ack, s')" and ooo: "1 < off"
    and rv: "recvFrom sock = Inr (seq, sock1)"
  shows "rx_step W s' seq = Inr (off, ack, s') \<and> rx_round sock W s' = Inr (s', ackTo ack sock1)"
proof -
  obtain e' where "rx_step W s' seq = Inr (off - (e' - (lastAckSent s + 1)), ack, s')"
    and "1 < off \<longrightarrow> e' = lastAckSent s + 1"
    using rx_step_repeat [OF inv seq st] by blast
  then have r: "rx_step W s' seq = Inr (off, ack, s')" using ooo by simp
  then show ?thesis using rv ooo by (simp add: rx_round.simps [of sock W s'])
qed

theorem rx_round_counts_duplicate_witness:
  "rx_inv 2 (rx_init 2) \<and> 0 \<le> (1::int) \<and> (1::int) < 2 * 2 + 1 \<and>
   rx_step 2 (rx_init 2) 1 =
     Inr (2, 0, \<lparr>largestAccFrame = 1, lastAckSent = 4, rbuf = [False, True, False, False, False]\<rparr>) \<and>
   1 < (2::int) \<and>
   recvFrom \<lparr>polls = [], inbox = [1], clock = [], trace = []\<rparr> =
     Inr (1, \<lparr>polls = [], inbox = [], clock = [], trace = []\<rparr>) \<and>
   rx_round \<lparr>polls = [], inbox = [1], clock = [], trace = []\<rparr> 2
     \<lparr>largestAccFrame = 1, lastAckSent = 4, rbuf = [False, True, False, False, False]\<rparr> =
     Inr (\<lparr>largestAccFrame = 1, lastAckSent = 4, rbuf = [False, True, False, False, False]\<rparr>,
          ackTo 0 \<lparr>polls = [], inbox = [], clock = [], trace = []\<rparr>)"
proof -
  have inv: "rx_inv 2 (rx_init 2)" by (rule rx_init_inv) simp
  have st: "rx_step 2 (rx_init 2) 1 =
      Inr (2, 0, \<lparr>largestAccFrame = 1, lastAckSent = 4, rbuf = [False, True, False, False, False]\<rparr>)"
    by code_simp
  have rv: "recvFrom \<lparr>polls = [], inbox = [1], clock = [], trace = []\<rparr> =
     Inr (1, \<lparr>polls = [], inbox = [], clock = [], trace = []\<rparr>)" by (simp add: recvFrom_def)
  show ?thesis using inv st rv rx_round_counts_duplicate [OF inv _ _ st _ rv] by simp
qed

text \<open>
  C14 (safety).  No-gap advancement (specification, section 8): a step moves
  \<open>lastAckSent\<close> forward only over sequence numbers whose frames had been received:
  each number it passes was buffered before the step, or is the frame just delivered
  and accepted.
\<close>

theorem rx_step_no_gap:
  assumes inv: "rx_inv W s" and seq: "0 \<le> seq" "seq < W * 2 + 1"
    and st: "rx_step W s seq = Inr (off, ack, s')"
  shows "\<forall>d. 0 \<le> d \<and> d < (lastAckSent s' - lastAckSent s) mod (W * 2 + 1) \<longrightarrow>
           rbuf s ! nat ((lastAckSent s + 1 + d) mod (W * 2 + 1)) \<or>
           ((lastAckSent s + 1 + d) mod (W * 2 + 1) = seq \<and> 0 < off)"
proof (intro allI impI)
  fix d assume d: "0 \<le> d \<and> d < (lastAckSent s' - lastAckSent s) mod (W * 2 + 1)"
  let ?R = "W * 2 + 1" and ?e = "lastAckSent s + 1" and ?w = "rx_window W s"
  have W: "0 < W" by (rule rx_inv_pos [OF inv])
  have las: "0 \<le> lastAckSent s" "lastAckSent s < ?R" using inv by (simp_all add: rx_inv_def Let_def)
  note rel = rx_inv_rel(1) [OF inv] and nz = rx_inv_rel(2) [OF inv]
  obtain n e' w' acc where hi: "n < ?e + W" and nm: "n mod ?R = seq"
    and spec: "rcv_spec W ?e ?w n = (e', w', acc)" and rel1: "rx_rel W e' w' s'"
    and acc: "acc \<longleftrightarrow> 0 < off" and off: "off = n - lastAckSent s"
    using rx_step_abs [OF inv seq st] by metis
  have len: "length ?w = nat W" using rx_relD(2) [OF rel] .
  note f = rcv_spec_redeliver [OF W len nz hi spec]
  have adv: "(lastAckSent s' - lastAckSent s) mod ?R = e' - ?e" using rx_advance [OF W rel1 f(1,2)] by simp
  have dd: "0 \<le> d" "d < e' - ?e" using d adv by simp_all
  have dw: "d < W" using dd f(2) by simp
  have slot: "rbuf s ! nat ((?e + d) mod ?R) = ?w ! nat d" using rx_relD(5) [OF rel dd(1) dw] .
  consider "?w ! nat d" | "d = n - ?e" "acc" using f(5) [OF dd] by blast
  then show "rbuf s ! nat ((lastAckSent s + 1 + d) mod ?R) \<or> ((lastAckSent s + 1 + d) mod ?R = seq \<and> 0 < off)"
  proof cases
    case 1
    then show ?thesis using slot by simp
  next
    case 2
    then show ?thesis using nm acc by simp
  qed
qed

theorem rx_step_no_gap_witness:
  "rx_inv 2 \<lparr>largestAccFrame = 1, lastAckSent = 4, rbuf = [False, True, False, False, False]\<rparr> \<and>
   0 \<le> (0::int) \<and> (0::int) < 2 * 2 + 1 \<and>
   rx_step 2 \<lparr>largestAccFrame = 1, lastAckSent = 4, rbuf = [False, True, False, False, False]\<rparr> 0 =
     Inr (1, 2, \<lparr>largestAccFrame = 3, lastAckSent = 1, rbuf = [False, True, False, False, False]\<rparr>) \<and>
   (1 - 4) mod (2 * 2 + 1) = (2::int) \<and>
   ([False, True, False, False, False] ! nat ((4 + 1 + 0) mod (2 * 2 + 1)) \<or>
      ((4 + 1 + 0) mod (2 * 2 + 1) = (0::int) \<and> 0 < (1::int))) \<and>
   ([False, True, False, False, False] ! nat ((4 + 1 + 1) mod (2 * 2 + 1)) \<or>
      ((4 + 1 + 1) mod (2 * 2 + 1) = (0::int) \<and> 0 < (1::int)))"
proof -
  let ?s = "\<lparr>largestAccFrame = 1, lastAckSent = 4, rbuf = [False, True, False, False, False]\<rparr>"
  have inv: "rx_inv 2 ?s" by (simp add: rx_inv_def)
  have st: "rx_step 2 ?s 0 =
      Inr (1, 2, \<lparr>largestAccFrame = 3, lastAckSent = 1, rbuf = [False, True, False, False, False]\<rparr>)"
    by code_simp
  have g: "\<forall>d. 0 \<le> d \<and> d < (1 - 4) mod (2 * 2 + 1) \<longrightarrow>
      [False, True, False, False, False] ! nat ((4 + 1 + d) mod (2 * 2 + 1)) \<or>
      ((4 + 1 + d) mod (2 * 2 + 1) = 0 \<and> 0 < (1::int))"
    using rx_step_no_gap [OF inv _ _ st] by simp
  show ?thesis using inv st g [rule_format, of 0] g [rule_format, of 1] by simp
qed

text \<open>
  C16 (invariant).  Cumulative-acknowledgment monotonicity (specification, section 8):
  modulo the sequence range, each step moves \<open>lastAckSent\<close> forward by at most
  \<open>windowSize\<close> and never backward, and the acknowledgment sent is the number after it.
\<close>

theorem rx_step_monotone:
  assumes inv: "rx_inv W s" and seq: "0 \<le> seq" "seq < W * 2 + 1"
    and st: "rx_step W s seq = Inr (off, ack, s')"
  shows "(lastAckSent s' - lastAckSent s) mod (W * 2 + 1) \<le> W \<and>
         ack = (lastAckSent s' + 1) mod (W * 2 + 1)"
proof -
  let ?R = "W * 2 + 1" and ?e = "lastAckSent s + 1" and ?w = "rx_window W s"
  have W: "0 < W" by (rule rx_inv_pos [OF inv])
  note rel = rx_inv_rel(1) [OF inv] and nz = rx_inv_rel(2) [OF inv]
  obtain n e' w' acc where hi: "n < ?e + W"
    and spec: "rcv_spec W ?e ?w n = (e', w', acc)" and rel1: "rx_rel W e' w' s'"
    and ack: "ack = e' mod ?R"
    using rx_step_abs [OF inv seq st] by metis
  have len: "length ?w = nat W" using rx_relD(2) [OF rel] .
  note f = rcv_spec_redeliver [OF W len nz hi spec]
  have "(lastAckSent s' - lastAckSent s) mod ?R = e' - ?e" using rx_advance [OF W rel1 f(1,2)] by simp
  moreover have "(lastAckSent s' + 1) mod ?R = e' mod ?R"
    using rx_relD(3) [OF rel1] by (simp add: mod_add_left_eq)
  ultimately show ?thesis using f(2) ack by simp
qed

theorem rx_step_monotone_witness:
  "rx_inv 2 \<lparr>largestAccFrame = 1, lastAckSent = 4, rbuf = [False, True, False, False, False]\<rparr> \<and>
   0 \<le> (0::int) \<and> (0::int) < 2 * 2 + 1 \<and>
   rx_step 2 \<lparr>largestAccFrame = 1, lastAckSent = 4, rbuf = [False, True, False, False, False]\<rparr> 0 =
     Inr (1, 2, \<lparr>largestAccFrame = 3, lastAckSent = 1, rbuf = [False, True, False, False, False]\<rparr>) \<and>
   (1 - 4) mod (2 * 2 + 1) \<le> (2::int) \<and> (2::int) = (1 + 1) mod (2 * 2 + 1)"
proof -
  let ?s = "\<lparr>largestAccFrame = 1, lastAckSent = 4, rbuf = [False, True, False, False, False]\<rparr>"
  have inv: "rx_inv 2 ?s" by (simp add: rx_inv_def)
  have st: "rx_step 2 ?s 0 =
      Inr (1, 2, \<lparr>largestAccFrame = 3, lastAckSent = 1, rbuf = [False, True, False, False, False]\<rparr>)"
    by code_simp
  show ?thesis using inv st rx_step_monotone [OF inv _ _ st] by simp
qed

end
