(* ===== verification/WindowSender.thy ===== *)
theory WindowSender
  imports AckAdvance
begin

text \<open>
  The sliding-window sender \<^verbatim>\<open>clientSlidingWindow\<close> of \<^verbatim>\<open>src/udp.cpp\<close>
  (lines 108-152).  Its locals \<open>retrans\<close>, \<open>lastAckRec\<close>, \<open>lastFrameSent\<close>,
  the flat array \<open>buffer[(windowSize + 1) * max]\<close> (an \<open>int option list\<close>:
  \<open>None\<close> is a never-written element), the caller's \<open>message\<close> array and the
  \<open>Timer\<close>'s start reading form \<open>tx_state\<close>.  The resend loop (lines 124-130) is
  \<open>tx_resend\<close>, the timeout branch (122-133) \<open>tx_timeout\<close>, the two
  \<open>ackAdvance\<close> updates of \<open>lastAckRec\<close> (135-136, 147-148) are
  \<open>tx_advance\<close> at the two index expressions of the code, the full-window loop
  (121-137) is \<open>tx_wait\<close>, the copy loop (143-145) \<open>tx_copy\<close>, one pass of
  the for loop \<open>tx_body\<close> and the loop \<open>tx_loop\<close>.
  \<open>sizeof(message) / sizeof(int)\<close> with \<open>message\<close> a pointer parameter is
  \<open>ptr_words = 2\<close> (8-byte pointers, 4-byte ints); the retransmission
  \<open>(char*)buffer[i]\<close> converts the stored sequence number into an address, and is
  the event \<open>SendFromAddr\<close> of that number.
  The invariant \<open>tx_rel W M base nxt\<close> relates the concrete state to a Go-Back-N
  sender whose frames \<open>base .. nxt - 1\<close> are outstanding.
\<close>

section \<open>Sender state and operations\<close>

record tx_state =
  retrans :: int
  lastAckRec :: int
  lastFrameSent :: int
  tbuf :: "int option list"
  tmsg :: "int list"
  tstart :: int

definition ptr_words :: int where
  "ptr_words = 2"

definition buf_read :: "int option list \<Rightarrow> int \<Rightarrow> int result" where
  "buf_read xs i =
     (case c_read xs i of
        Inl f \<Rightarrow> Inl f
      | Inr None \<Rightarrow> Inl (Uninitialised i)
      | Inr (Some v) \<Rightarrow> Inr v)"

function tx_resend :: "env \<Rightarrow> int \<Rightarrow> int \<Rightarrow> tx_state \<Rightarrow> int \<Rightarrow> (tx_state \<times> env) result" where
  "tx_resend sock msgMax windowSize s i =
     (if i \<le> (lastFrameSent s - lastAckRec s + windowSize + 1) smod (windowSize + 1) then
        (case buf_read (tbuf s) (((lastAckRec s + i) smod (windowSize + 1)) * msgMax) of
           Inl f \<Rightarrow> Inl f
         | Inr v \<Rightarrow>
             tx_resend (sendFromAddr v sock) msgMax windowSize (s\<lparr>retrans := retrans s + 1\<rparr>) (i + 1))
      else Inr (s, sock))"
  by pat_completeness auto
termination
  by (relation "measure (\<lambda>(_, _, W, s, i).
        nat ((lastFrameSent s - lastAckRec s + W + 1) smod (W + 1) + 1 - i))") auto

declare tx_resend.simps [simp del]

definition tx_advance :: "env \<Rightarrow> int \<Rightarrow> tx_state \<Rightarrow> int \<Rightarrow> (tx_state \<times> env) result" where
  "tx_advance sock windowSize s idx =
     (case buf_read (tbuf s) idx of
        Inl f \<Rightarrow> Inl f
      | Inr v \<Rightarrow>
          (case ackAdvance sock v windowSize of
             Inl f \<Rightarrow> Inl f
           | Inr (a, sock') \<Rightarrow>
               Inr (s\<lparr>lastAckRec := (lastAckRec s + a) smod (windowSize + 1)\<rparr>, sock')))"

definition tx_timeout :: "env \<Rightarrow> int \<Rightarrow> int \<Rightarrow> tx_state \<Rightarrow> (tx_state \<times> env) result" where
  "tx_timeout sock msgMax windowSize s =
     (case timer_lap (tstart s) sock of
        Inl f \<Rightarrow> Inl f
      | Inr (d, sock1) \<Rightarrow>
          if d > MAX_TIME then
            (case tx_resend sock1 msgMax windowSize s 1 of
               Inl f \<Rightarrow> Inl f
             | Inr (s2, sock2) \<Rightarrow>
                 (case timer_start sock2 of
                    Inl f \<Rightarrow> Inl f
                  | Inr (t, sock3) \<Rightarrow> Inr (s2\<lparr>tstart := t\<rparr>, sock3)))
          else Inr (s, sock1))"

lemma tx_resend_polls:
  "tx_resend sock M W s i = Inr (s', sock') \<Longrightarrow> polls sock' = polls sock"
proof (induction sock M W s i rule: tx_resend.induct)
  case (1 sock M W s i)
  then show ?case
    by (auto simp: tx_resend.simps [of sock M W s i] split: if_splits sum.splits)
qed

lemma tx_timeout_polls:
  "tx_timeout sock M W s = Inr (s', sock') \<Longrightarrow> polls sock' = polls sock"
  by (auto simp: tx_timeout_def polls_unchanged split: sum.splits prod.splits if_splits
      dest!: tx_resend_polls polls_unchanged(2) polls_unchanged(3))

lemma tx_advance_polls:
  "tx_advance sock W s idx = Inr (s', sock') \<Longrightarrow> length (polls sock') < length (polls sock)"
  by (auto simp: tx_advance_def split: sum.splits prod.splits elim!: ackAdvance_Inr_cases)

function tx_wait :: "env \<Rightarrow> int \<Rightarrow> int \<Rightarrow> tx_state \<Rightarrow> (tx_state \<times> env) result" where
  "tx_wait sock msgMax windowSize s =
     (if lastAckRec s = (lastFrameSent s + 1) smod (windowSize + 1) then
        (case tx_timeout sock msgMax windowSize s of
           Inl f \<Rightarrow> Inl f
         | Inr (s1, sock1) \<Rightarrow>
             (case tx_advance sock1 windowSize s1 ((lastAckRec s1 + 1) * msgMax) of
                Inl f \<Rightarrow> Inl f
              | Inr (s2, sock2) \<Rightarrow> tx_wait sock2 msgMax windowSize s2))
      else Inr (s, sock))"
  by pat_completeness auto
termination
  by (relation "measure (\<lambda>(sock, _, _, _). length (polls sock))")
     (auto dest!: tx_timeout_polls tx_advance_polls)

declare tx_wait.simps [simp del]

function tx_copy :: "int \<Rightarrow> tx_state \<Rightarrow> int \<Rightarrow> tx_state result" where
  "tx_copy msgMax s i =
     (if i < ptr_words then
        (case c_read (tmsg s) i of
           Inl f \<Rightarrow> Inl f
         | Inr m \<Rightarrow>
             (case c_write (tbuf s) (lastFrameSent s * msgMax + i) (Some m) of
                Inl f \<Rightarrow> Inl f
              | Inr b \<Rightarrow> tx_copy msgMax (s\<lparr>tbuf := b\<rparr>) (i + 1)))
      else Inr s)"
  by pat_completeness auto
termination
  by (relation "measure (\<lambda>(_, _, i). nat (ptr_words - i))") auto

declare tx_copy.simps [simp del]

definition tx_body :: "env \<Rightarrow> int \<Rightarrow> int \<Rightarrow> tx_state \<Rightarrow> int \<Rightarrow> (tx_state \<times> env) result" where
  "tx_body sock msgMax windowSize s msgNum =
     (let seqRange = windowSize * 2 + 1 in
      case timer_start sock of
        Inl f \<Rightarrow> Inl f
      | Inr (t, sock1) \<Rightarrow>
          (case tx_wait sock1 msgMax windowSize (s\<lparr>tstart := t\<rparr>) of
             Inl f \<Rightarrow> Inl f
           | Inr (s2, sock2) \<Rightarrow>
               (case c_write (tmsg s2) 0 (msgNum smod seqRange) of
                  Inl f \<Rightarrow> Inl f
                | Inr m \<Rightarrow>
                    (let sock3 = sendTo (m ! 0) sock2;
                         s3 = s2\<lparr>tmsg := m,
                                 lastFrameSent := (lastFrameSent s2 + 1) smod (windowSize + 1)\<rparr> in
                     case tx_copy msgMax s3 0 of
                       Inl f \<Rightarrow> Inl f
                     | Inr s4 \<Rightarrow>
                         tx_advance sock3 windowSize s4
                           (((lastAckRec s4 + 1) smod (windowSize + 1)) * msgMax)))))"

function tx_loop :: "env \<Rightarrow> int \<Rightarrow> int \<Rightarrow> tx_state \<Rightarrow> int \<Rightarrow> (tx_state \<times> env) result" where
  "tx_loop sock msgMax windowSize s msgNum =
     (if msgNum < msgMax then
        (case tx_body sock msgMax windowSize s msgNum of
           Inl f \<Rightarrow> Inl f
         | Inr (s', sock') \<Rightarrow> tx_loop sock' msgMax windowSize s' (msgNum + 1))
      else Inr (s, sock))"
  by pat_completeness auto
termination
  by (relation "measure (\<lambda>(_, msgMax, _, _, msgNum). nat (msgMax - msgNum))") auto

declare tx_loop.simps [simp del]

definition tx_init :: "int \<Rightarrow> int list \<Rightarrow> int \<Rightarrow> tx_state" where
  "tx_init msgMax message windowSize =
     \<lparr>retrans = 0, lastAckRec = 0, lastFrameSent = 0,
      tbuf = replicate (nat ((windowSize + 1) * msgMax)) None, tmsg = message, tstart = 0\<rparr>"

definition clientSlidingWindow :: "env \<Rightarrow> int \<Rightarrow> int list \<Rightarrow> int \<Rightarrow> (int \<times> env) result" where
  "clientSlidingWindow sock msgMax message windowSize =
     (case tx_loop sock msgMax windowSize (tx_init msgMax message windowSize) 0 of
        Inl f \<Rightarrow> Inl f
      | Inr (s, sock') \<Rightarrow> Inr (retrans s, sock'))"

fun sent_frames :: "out_event list \<Rightarrow> int list" where
  "sent_frames [] = []"
| "sent_frames (SendTo m # es) = m # sent_frames es"
| "sent_frames (_ # es) = sent_frames es"

fun is_resend :: "out_event \<Rightarrow> bool" where
  "is_resend (SendFromAddr _) = True"
| "is_resend _ = False"

definition resends_only :: "tx_state \<Rightarrow> env \<Rightarrow> tx_state \<Rightarrow> env \<Rightarrow> bool" where
  "resends_only s sock s' sock' \<longleftrightarrow>
     (\<exists>vs. trace sock' = trace sock @ map SendFromAddr vs \<and> retrans s' = retrans s + int (length vs))"

definition tx_rel :: "int \<Rightarrow> int \<Rightarrow> int \<Rightarrow> int \<Rightarrow> tx_state \<Rightarrow> bool" where
  "tx_rel W M base nxt s \<longleftrightarrow>
     0 \<le> base \<and> base \<le> nxt \<and> nxt \<le> base + W \<and>
     lastAckRec s = base mod (W + 1) \<and> lastFrameSent s = nxt mod (W + 1) \<and>
     length (tbuf s) = nat ((W + 1) * M) \<and>
     (\<forall>k. base \<le> k \<and> k < nxt \<longrightarrow> tbuf s ! nat (((k + 1) mod (W + 1)) * M) = Some (k mod (W * 2 + 1)))"

lemma resends_only_refl [simp]: "resends_only s sock s sock"
  unfolding resends_only_def by (rule exI [of _ "[]"]) simp

lemma resends_only_trans:
  "resends_only s1 sock1 s2 sock2 \<Longrightarrow> resends_only s2 sock2 s3 sock3 \<Longrightarrow> resends_only s1 sock1 s3 sock3"
proof -
  assume "resends_only s1 sock1 s2 sock2" "resends_only s2 sock2 s3 sock3"
  then obtain as bs where "trace sock2 = trace sock1 @ map SendFromAddr as" "retrans s2 = retrans s1 + int (length as)"
    "trace sock3 = trace sock2 @ map SendFromAddr bs" "retrans s3 = retrans s2 + int (length bs)"
    unfolding resends_only_def by blast
  then show ?thesis unfolding resends_only_def by (intro exI [of _ "as @ bs"]) simp
qed

lemma resends_only_same:
  "trace sock' = trace sock \<Longrightarrow> retrans s' = retrans s \<Longrightarrow> resends_only s sock s' sock'"
  unfolding resends_only_def by (rule exI [of _ "[]"]) simp

lemma tx_resend_effect:
  "tx_resend sock M W s i = Inr (s', sock') \<Longrightarrow>
     resends_only s sock s' sock' \<and> s' = s\<lparr>retrans := retrans s'\<rparr>"
proof (induction sock M W s i rule: tx_resend.induct)
  case (1 sock M W s i)
  show ?case
  proof (cases "i \<le> (lastFrameSent s - lastAckRec s + W + 1) smod (W + 1)")
    case False
    then show ?thesis using "1.prems" by (simp add: tx_resend.simps [of sock M W s i])
  next
    case True
    then obtain v where r: "buf_read (tbuf s) (((lastAckRec s + i) smod (W + 1)) * M) = Inr v"
      and unf: "tx_resend (sendFromAddr v sock) M W (s\<lparr>retrans := retrans s + 1\<rparr>) (i + 1) = Inr (s', sock')"
      using "1.prems" by (auto simp: tx_resend.simps [of sock M W s i] split: sum.splits)
    have IH: "resends_only (s\<lparr>retrans := retrans s + 1\<rparr>) (sendFromAddr v sock) s' sock' \<and>
        s' = s\<lparr>retrans := retrans s + 1, retrans := retrans s'\<rparr>"
      using "1.IH" [OF True r unf] by simp
    have "resends_only s sock (s\<lparr>retrans := retrans s + 1\<rparr>) (sendFromAddr v sock)"
      unfolding resends_only_def by (rule exI [of _ "[v]"]) (simp add: sendFromAddr_def)
    then show ?thesis using IH resends_only_trans by fastforce
  qed
qed

lemma tx_timeout_effect:
  "tx_timeout sock M W s = Inr (s', sock') \<Longrightarrow>
     resends_only s sock s' sock' \<and> s' = s\<lparr>retrans := retrans s', tstart := tstart s'\<rparr>"
  by (auto simp: tx_timeout_def resends_only_def split: sum.splits prod.splits if_splits
      dest!: tx_resend_effect trace_unchanged(3) trace_unchanged(4))

lemma tx_advance_effect:
  "tx_advance sock W s idx = Inr (s', sock') \<Longrightarrow>
     trace sock' = trace sock \<and> s' = s\<lparr>lastAckRec := lastAckRec s'\<rparr>"
  by (auto simp: tx_advance_def split: sum.splits prod.splits elim!: ackAdvance_Inr_cases)

lemma tx_wait_effect:
  "tx_wait sock M W s = Inr (s', sock') \<Longrightarrow>
     resends_only s sock s' sock' \<and>
     s' = s\<lparr>retrans := retrans s', lastAckRec := lastAckRec s', tstart := tstart s'\<rparr>"
proof (induction sock M W s rule: tx_wait.induct)
  case (1 sock M W s)
  show ?case
  proof (cases "lastAckRec s = (lastFrameSent s + 1) smod (W + 1)")
    case False
    then show ?thesis using "1.prems" by (simp add: tx_wait.simps [of sock M W s])
  next
    case True
    then obtain s1 sock1 s2 sock2 where t: "tx_timeout sock M W s = Inr (s1, sock1)"
      and a: "tx_advance sock1 W s1 ((lastAckRec s1 + 1) * M) = Inr (s2, sock2)"
      and w: "tx_wait sock2 M W s2 = Inr (s', sock')"
      using "1.prems" by (auto simp: tx_wait.simps [of sock M W s] split: sum.splits)
    note e1 = tx_timeout_effect [OF t] and e2 = tx_advance_effect [OF a]
    have IH: "resends_only s2 sock2 s' sock' \<and>
        s' = s2\<lparr>retrans := retrans s', lastAckRec := lastAckRec s', tstart := tstart s'\<rparr>"
      by (rule "1.IH" [OF True t refl a refl w])
    have "retrans s2 = retrans s1" using arg_cong [OF conjunct2 [OF e2], of retrans] by simp
    then have "resends_only s1 sock1 s2 sock2" using e2 by (auto intro: resends_only_same)
    then have "resends_only s sock s' sock'" using e1 IH resends_only_trans by blast
    moreover have "s' = s\<lparr>retrans := retrans s', lastAckRec := lastAckRec s', tstart := tstart s'\<rparr>"
      using e1 e2 IH by (cases s; cases s1; cases s2; cases s') simp
    ultimately show ?thesis by blast
  qed
qed

lemma tx_copy_effect:
  "tx_copy M s i = Inr s' \<Longrightarrow> s' = s\<lparr>tbuf := tbuf s'\<rparr>"
proof (induction M s i rule: tx_copy.induct)
  case (1 M s i)
  show ?case
  proof (cases "i < ptr_words")
    case False
    then show ?thesis using "1.prems" by (simp add: tx_copy.simps [of M s i])
  next
    case True
    then obtain m b where r: "c_read (tmsg s) i = Inr m"
      and w: "c_write (tbuf s) (lastFrameSent s * M + i) (Some m) = Inr b"
      and c: "tx_copy M (s\<lparr>tbuf := b\<rparr>) (i + 1) = Inr s'"
      using "1.prems" by (auto simp: tx_copy.simps [of M s i] split: sum.splits)
    have "s' = s\<lparr>tbuf := b, tbuf := tbuf s'\<rparr>" by (rule "1.IH" [OF True r w c])
    then show ?thesis by simp
  qed
qed

lemma sent_frames_append [simp]: "sent_frames (xs @ ys) = sent_frames xs @ sent_frames ys"
  by (induction xs rule: sent_frames.induct) simp_all

lemma tx_body_effect:
  assumes "tx_body sock M W s msgNum = Inr (s', sock')"
  shows "\<exists>vs. trace sock' = trace sock @ map SendFromAddr vs @ [SendTo (msgNum smod (W * 2 + 1))] \<and>
           retrans s' = retrans s + int (length vs)"
proof -
  let ?R = "W * 2 + 1"
  obtain t sock1 s2 sock2 m s4 where ts: "timer_start sock = Inr (t, sock1)"
    and w: "tx_wait sock1 M W (s\<lparr>tstart := t\<rparr>) = Inr (s2, sock2)"
    and cw: "c_write (tmsg s2) 0 (msgNum smod ?R) = Inr m"
    and cp: "tx_copy M (s2\<lparr>tmsg := m, lastFrameSent := (lastFrameSent s2 + 1) smod (W + 1)\<rparr>) 0 = Inr s4"
    and a: "tx_advance (sendTo (m ! 0) sock2) W s4 (((lastAckRec s4 + 1) smod (W + 1)) * M) = Inr (s', sock')"
    using assms by (auto simp: tx_body_def Let_def split: sum.splits)
  obtain vs where tr2: "trace sock2 = trace sock1 @ map SendFromAddr vs"
    and rt2: "retrans s2 = retrans s + int (length vs)"
    using tx_wait_effect [OF w] by (auto simp: resends_only_def)
  have m0: "m ! 0 = msgNum smod ?R" using cw by (auto simp: c_write_Inr_iff)
  have rt4: "retrans s4 = retrans s2" using arg_cong [OF tx_copy_effect [OF cp], of retrans] by simp
  have rt': "retrans s' = retrans s4" using arg_cong [OF conjunct2 [OF tx_advance_effect [OF a]], of retrans] by simp
  have tr': "trace sock' = trace sock2 @ [SendTo (msgNum smod ?R)]"
    using conjunct1 [OF tx_advance_effect [OF a]] m0 by simp
  show ?thesis using tr' tr2 rt2 rt4 rt' trace_unchanged(3) [OF ts] by auto
qed

lemma tx_loop_effect:
  assumes "tx_loop sock M W s k = Inr (s', sock')"
  shows "\<exists>tr. trace sock' = trace sock @ tr \<and>
           sent_frames tr = map (\<lambda>i. (k + int i) smod (W * 2 + 1)) [0..<nat (M - k)] \<and>
           retrans s' = retrans s + int (length (filter is_resend tr))"
  using assms
proof (induction sock M W s k rule: tx_loop.induct)
  case (1 sock M W s k)
  show ?case
  proof (cases "k < M")
    case False
    then show ?thesis using "1.prems" by (simp add: tx_loop.simps [of sock M W s k])
  next
    case True
    then obtain s1 sock1 where b: "tx_body sock M W s k = Inr (s1, sock1)"
      and l: "tx_loop sock1 M W s1 (k + 1) = Inr (s', sock')"
      using "1.prems" by (auto simp: tx_loop.simps [of sock M W s k] split: sum.splits)
    obtain vs where tr1: "trace sock1 = trace sock @ map SendFromAddr vs @ [SendTo (k smod (W * 2 + 1))]"
      and rt1: "retrans s1 = retrans s + int (length vs)"
      using tx_body_effect [OF b] by blast
    obtain tr where tr: "trace sock' = trace sock1 @ tr"
      and mf: "sent_frames tr = map (\<lambda>i. (k + 1 + int i) smod (W * 2 + 1)) [0..<nat (M - (k + 1))]"
      and rt: "retrans s' = retrans s1 + int (length (filter is_resend tr))"
      using "1.IH" [OF True b refl l] by blast
    have n: "nat (M - k) = Suc (nat (M - (k + 1)))" using True by simp
    have "map (\<lambda>i. (k + int i) smod (W * 2 + 1)) [0..<nat (M - k)] =
          k smod (W * 2 + 1) # map (\<lambda>i. (k + 1 + int i) smod (W * 2 + 1)) [0..<nat (M - (k + 1))]"
      unfolding n by (simp only: map_upt_Suc) (simp add: ac_simps)
    moreover have "sent_frames (map SendFromAddr vs) = []"
      by (induction vs) (simp_all add:)
    moreover have "filter is_resend (map SendFromAddr vs) = map SendFromAddr vs"
      by (induction vs) simp_all
    ultimately show ?thesis using tr1 tr mf rt rt1
      by (intro exI [of _ "map SendFromAddr vs @ [SendTo (k smod (W * 2 + 1))] @ tr"])
         (simp add: sent_frames_append)
  qed
qed

lemma tx_copy_words:
  assumes "0 \<le> lastFrameSent s * M" and "lastFrameSent s * M + 1 < int (length (tbuf s))"
    and "2 \<le> length (tmsg s)"
  shows "tx_copy M s 0 =
           Inr (s\<lparr>tbuf := (tbuf s)[nat (lastFrameSent s * M) := Some (tmsg s ! 0),
                                   nat (lastFrameSent s * M + 1) := Some (tmsg s ! 1)]\<rparr>)"
proof -
  let ?j = "lastFrameSent s * M"
  have m: "0 < int (length (tmsg s))" "1 < int (length (tmsg s))" using assms(3) by linarith+
  have c1: "tx_copy M s 0 = tx_copy M (s\<lparr>tbuf := (tbuf s)[nat ?j := Some (tmsg s ! 0)]\<rparr>) 1"
    using assms m by (simp add: tx_copy.simps [of M s 0] ptr_words_def)
  have c2: "tx_copy M (s\<lparr>tbuf := (tbuf s)[nat ?j := Some (tmsg s ! 0)]\<rparr>) 1 =
      tx_copy M (s\<lparr>tbuf := (tbuf s)[nat ?j := Some (tmsg s ! 0), nat (?j + 1) := Some (tmsg s ! 1)]\<rparr>) 2"
    using assms m by (simp add: tx_copy.simps [of M _ 1] ptr_words_def)
  have c3: "tx_copy M (s\<lparr>tbuf := (tbuf s)[nat ?j := Some (tmsg s ! 0), nat (?j + 1) := Some (tmsg s ! 1)]\<rparr>) 2 =
      Inr (s\<lparr>tbuf := (tbuf s)[nat ?j := Some (tmsg s ! 0), nat (?j + 1) := Some (tmsg s ! 1)]\<rparr>)"
    by (simp add: tx_copy.simps [of M _ 2] ptr_words_def)
  show ?thesis using c1 c2 c3 by simp
qed

lemma slot_index_bounds:
  fixes l M W :: int
  assumes "0 \<le> l" "l \<le> W" "2 \<le> M"
  shows "0 \<le> l * M" "l * M + 1 < (W + 1) * M"
proof -
  show "0 \<le> l * M" using assms by simp
  have "l * M \<le> W * M" using assms by (simp add: mult_right_mono)
  moreover have "(W + 1) * M = W * M + M" by (simp add: distrib_right)
  ultimately show "l * M + 1 < (W + 1) * M" using assms by linarith
qed

lemma mod_succ_neq:
  fixes x R :: int
  assumes "1 < R"
  shows "x mod R \<noteq> (x + 1) mod R"
  using mod_window_inj [of x x R "x + 1"] assms by auto

lemma succ_slot:
  fixes k W :: int
  assumes "0 \<le> W"
  shows "(k mod (W + 1) + 1) smod (W + 1) = (k + 1) mod (W + 1)"
proof -
  have "0 \<le> k mod (W + 1) + 1" using assms by simp
  then have "(k mod (W + 1) + 1) smod (W + 1) = (k mod (W + 1) + 1) mod (W + 1)" using assms by simp
  then show ?thesis by (simp add: mod_add_left_eq)
qed

lemma tx_body_in_order:
  assumes W: "0 < W" and M: "2 \<le> M" and k: "0 \<le> k"
    and lar: "lastAckRec s = k mod (W + 1)" and lfs: "lastFrameSent s = k mod (W + 1)"
    and len: "length (tbuf s) = nat ((W + 1) * M)" and msg: "2 \<le> length (tmsg s)"
    and ck: "clock sock = t # ts" and pl: "polls sock = p # ps" and p: "0 < p"
    and ib: "inbox sock = (k + 1) mod (W * 2 + 1) # ms"
  shows "\<exists>s'. tx_body sock M W s k =
           Inr (s', sock\<lparr>clock := ts, polls := ps, inbox := ms,
                          trace := trace sock @ [SendTo (k mod (W * 2 + 1))]\<rparr>) \<and>
         lastAckRec s' = (k + 1) mod (W + 1) \<and> lastFrameSent s' = (k + 1) mod (W + 1) \<and>
         length (tbuf s') = length (tbuf s) \<and> length (tmsg s') = length (tmsg s) \<and>
         retrans s' = retrans s"
proof -
  let ?R = "W * 2 + 1" and ?l = "(k + 1) mod (W + 1)"
  let ?sock1 = "sock\<lparr>clock := ts\<rparr>" and ?s1 = "s\<lparr>tstart := t\<rparr>"
  have ts: "timer_start sock = Inr (t, ?sock1)" using ck by (simp add: timer_start_def)
  have "k mod (W + 1) \<noteq> ?l" using mod_succ_neq [of "W + 1" k] W by simp
  then have wt: "tx_wait ?sock1 M W ?s1 = Inr (?s1, ?sock1)"
    using lar lfs succ_slot [of W k] W by (simp add: tx_wait.simps [of ?sock1 M W ?s1])
  let ?m = "(tmsg s)[0 := k mod ?R]"
  have m0len: "0 < int (length (tmsg s))" using msg by linarith
  have cw: "c_write (tmsg ?s1) 0 (k smod ?R) = Inr ?m" using m0len k W by simp
  let ?s3 = "?s1\<lparr>tmsg := ?m, lastFrameSent := (lastFrameSent ?s1 + 1) smod (W + 1)\<rparr>"
  have lfs3: "lastFrameSent ?s3 = ?l" using lfs succ_slot [of W k] W by simp
  have l: "0 \<le> ?l" "?l \<le> W" using W pos_mod_bound [of "W + 1" "k + 1"] by simp_all
  note b = slot_index_bounds [OF l M]
  have blen: "int (length (tbuf ?s3)) = (W + 1) * M" using len W M by simp
  let ?b4 = "(tbuf s)[nat (?l * M) := Some (k mod ?R), nat (?l * M + 1) := Some (?m ! 1)]"
  have "0 < length (tmsg s)" using msg by linarith
  then have m0: "?m ! 0 = k mod ?R" by simp
  have cp: "tx_copy M ?s3 0 = Inr (?s3\<lparr>tbuf := ?b4\<rparr>)"
    using tx_copy_words [of ?s3 M] lfs3 b blen msg m0 by simp
  let ?s4 = "?s3\<lparr>tbuf := ?b4\<rparr>"
  have idx: "((lastAckRec ?s4 + 1) smod (W + 1)) * M = ?l * M" using lar succ_slot [of W k] W by simp
  have rd: "buf_read (tbuf ?s4) (?l * M) = Inr (k mod ?R)"
  proof -
    have "nat (?l * M) < length (tbuf s)" using b len by linarith
    moreover have "nat (?l * M + 1) \<noteq> nat (?l * M)" using b by simp
    ultimately show ?thesis using b blen by (simp add: buf_read_def c_read_def)
  qed
  have val: "ackAdvance_value ((k + 1) mod ?R) (k mod ?R) W = 1"
    using ackAdvance_value_credit [of W k "k + 1"] W by (simp add: ack_credit_def mult.commute)
  let ?sock3 = "sendTo (?m ! 0) ?sock1"
  have adv: "tx_advance ?sock3 W ?s4 (?l * M) =
      Inr (?s4\<lparr>lastAckRec := ?l\<rparr>, ?sock3\<lparr>polls := ps, inbox := ms\<rparr>)"
    using rd ackAdvance_data [of ?sock3 p ps "(k + 1) mod ?R" ms "k mod ?R" W] pl p ib val lar
      succ_slot [of W k] W by (simp add: tx_advance_def)
  have body: "tx_body sock M W s k = Inr (?s4\<lparr>lastAckRec := ?l\<rparr>, ?sock3\<lparr>polls := ps, inbox := ms\<rparr>)"
  proof -
    have la: "(lastAckRec s + 1) smod (W + 1) = ?l" and lf: "(lastFrameSent s + 1) smod (W + 1) = ?l"
      using lar lfs succ_slot [of W k] W by simp_all
    show ?thesis using ts wt cw cp adv by (simp add: tx_body_def Let_def la lf)
  qed
  have "?sock3\<lparr>polls := ps, inbox := ms\<rparr> =
      sock\<lparr>clock := ts, polls := ps, inbox := ms, trace := trace sock @ [SendTo (k mod ?R)]\<rparr>"
    using m0 by (simp add: sendTo_def)
  then show ?thesis using body lfs3 by simp
qed

lemma tx_loop_in_order:
  assumes W: "0 < W" and M: "2 \<le> msgMax"
    and "0 \<le> k" and "lastAckRec s = k mod (W + 1)" and "lastFrameSent s = k mod (W + 1)"
    and "length (tbuf s) = nat ((W + 1) * msgMax)" and "2 \<le> length (tmsg s)"
    and "polls sock = replicate m 1 @ ps"
    and "inbox sock = map (\<lambda>i. (k + int i + 1) mod (W * 2 + 1)) [0..<m] @ ms"
    and "clock sock = ts @ cs" and "length ts = m" and "msgMax = k + int m"
  shows "\<exists>s'. tx_loop sock msgMax W s k =
           Inr (s', sock\<lparr>polls := ps, inbox := ms, clock := cs,
                    trace := trace sock @ map (\<lambda>i. SendTo ((k + int i) mod (W * 2 + 1))) [0..<m]\<rparr>) \<and>
           retrans s' = retrans s"
  using assms(3-)
proof (induction m arbitrary: s sock k ts)
  case 0
  then have e: "sock\<lparr>polls := ps, inbox := ms, clock := cs\<rparr> = sock" by simp
  have nk: "\<not> k < msgMax" using "0.prems" by simp
  show ?case by (intro exI [of _ s]) (simp add: tx_loop.simps [of sock msgMax W s k] nk e)
next
  case (Suc m)
  let ?R = "W * 2 + 1"
  obtain t ts' where ck: "clock sock = t # (ts' @ cs)" and lts: "length ts' = m"
    using Suc.prems(8,9) by (cases ts) auto
  have pl: "polls sock = 1 # (replicate m 1 @ ps)" using Suc.prems(6) by simp
  have ib: "inbox sock = (k + 1) mod ?R # (map (\<lambda>i. (k + 1 + int i + 1) mod ?R) [0..<m] @ ms)"
    using Suc.prems(7) by (simp only: map_upt_Suc) (simp add: ac_simps)
  obtain s1 where b: "tx_body sock msgMax W s k =
      Inr (s1, sock\<lparr>clock := ts' @ cs, polls := replicate m 1 @ ps,
             inbox := map (\<lambda>i. (k + 1 + int i + 1) mod ?R) [0..<m] @ ms,
             trace := trace sock @ [SendTo (k mod ?R)]\<rparr>)"
    and s1: "lastAckRec s1 = (k + 1) mod (W + 1)" "lastFrameSent s1 = (k + 1) mod (W + 1)"
      "length (tbuf s1) = length (tbuf s)" "length (tmsg s1) = length (tmsg s)" "retrans s1 = retrans s"
    using tx_body_in_order [OF W M Suc.prems(1-5) ck pl _ ib] by auto
  let ?sock1 = "sock\<lparr>clock := ts' @ cs, polls := replicate m 1 @ ps,
             inbox := map (\<lambda>i. (k + 1 + int i + 1) mod ?R) [0..<m] @ ms,
             trace := trace sock @ [SendTo (k mod ?R)]\<rparr>"
  have lt: "k < msgMax" using Suc.prems(10) by simp
  have unf: "tx_loop sock msgMax W s k = tx_loop ?sock1 msgMax W s1 (k + 1)"
    using lt b by (simp add: tx_loop.simps [of sock msgMax W s k])
  obtain s' where l: "tx_loop ?sock1 msgMax W s1 (k + 1) =
      Inr (s', ?sock1\<lparr>polls := ps, inbox := ms, clock := cs,
         trace := trace ?sock1 @ map (\<lambda>i. SendTo ((k + 1 + int i) mod ?R)) [0..<m]\<rparr>)"
    and r: "retrans s' = retrans s1"
    using Suc.IH [of "k + 1" s1 ?sock1 ts'] Suc.prems s1 lts by auto
  have "map (\<lambda>i. SendTo ((k + int i) mod ?R)) [0..<Suc m] =
        SendTo (k mod ?R) # map (\<lambda>i. SendTo ((k + 1 + int i) mod ?R)) [0..<m]"
    by (simp only: map_upt_Suc) (simp add: ac_simps)
  then show ?case using unf l r s1 by simp
qed

lemma outstanding_count:
  assumes W: "0 < W" and rel: "tx_rel W M base nxt s"
  shows "(lastFrameSent s - lastAckRec s + W + 1) smod (W + 1) = nxt - base"
proof -
  have b: "0 \<le> base" "base \<le> nxt" "nxt \<le> base + W"
    and la: "lastAckRec s = base mod (W + 1)" and lf: "lastFrameSent s = nxt mod (W + 1)"
    using rel by (simp_all add: tx_rel_def)
  have nn: "0 \<le> lastFrameSent s - lastAckRec s + W + 1"
    using la lf W pos_mod_bound [of "W + 1" base] pos_mod_sign [of "W + 1" nxt] by linarith
  have "(nxt mod (W + 1) - base mod (W + 1) + (W + 1)) mod (W + 1) = (nxt - base + (W + 1)) mod (W + 1)"
    by (rule mod_diff_mods)
  also have "\<dots> = nxt - base" using b W by (simp only: mod_plus_modulus) simp
  finally show ?thesis using nn la lf W by (simp add: add.assoc)
qed

lemma slot_read:
  assumes W: "0 < W" and M: "1 \<le> M" and rel: "tx_rel W M base nxt s"
    and k: "base \<le> k" "k < nxt"
  shows "buf_read (tbuf s) (((k + 1) mod (W + 1)) * M) = Inr (k mod (W * 2 + 1))"
proof -
  let ?l = "(k + 1) mod (W + 1)"
  have l: "0 \<le> ?l" "?l \<le> W" using W pos_mod_bound [of "W + 1" "k + 1"] by simp_all
  have "?l * M \<le> W * M" using l M by (simp add: mult_right_mono)
  moreover have "(W + 1) * M = W * M + M" by (simp add: distrib_right)
  moreover have "length (tbuf s) = nat ((W + 1) * M)" using rel by (simp add: tx_rel_def)
  ultimately have "0 \<le> ?l * M" "?l * M < int (length (tbuf s))" using l M W by (simp, linarith)
  then show ?thesis using rel k by (simp add: buf_read_def tx_rel_def)
qed

lemma tx_resend_outstanding:
  assumes W: "0 < W" and M: "1 \<le> M" and rel: "tx_rel W M base nxt s"
    and i: "1 \<le> i" "i \<le> nxt - base + 1"
  shows "tx_resend sock M W s i =
           Inr (s\<lparr>retrans := retrans s + (nxt - base - i + 1)\<rparr>,
                sock\<lparr>trace := trace sock @ map (\<lambda>k. SendFromAddr (k mod (W * 2 + 1))) [base + i - 1..nxt - 1]\<rparr>)"
proof -
  have tx_rel_retrans: "tx_rel W M base nxt (t\<lparr>retrans := r\<rparr>) \<longleftrightarrow> tx_rel W M base nxt t" for t r
    by (simp add: tx_rel_def)
  have cnt: "(lastFrameSent t - lastAckRec t + W + 1) smod (W + 1) = nxt - base"
    if "tx_rel W M base nxt t" for t using outstanding_count [OF W that] .
  have la: "lastAckRec t = base mod (W + 1)" if "tx_rel W M base nxt t" for t
    using that by (simp add: tx_rel_def)
  show ?thesis
    using rel i
  proof (induction "nat (nxt - base + 1 - i)" arbitrary: i s sock)
    case 0
    then have "\<not> i \<le> nxt - base" by simp
    then show ?case using cnt [OF "0.prems"(1)] "0.prems"(3)
      by (simp add: tx_resend.simps [of sock M W s i])
  next
    case (Suc n)
    let ?R = "W * 2 + 1" and ?k = "base + i - 1"
    have le: "i \<le> nxt - base" using Suc.hyps(2) by simp
    have idx: "(lastAckRec s + i) smod (W + 1) = (?k + 1) mod (W + 1)"
    proof -
      have "0 \<le> lastAckRec s + i" using la [OF Suc.prems(1)] Suc.prems(2) W by simp
      then show ?thesis using la [OF Suc.prems(1)] W by (simp add: mod_add_left_eq)
    qed
    have rd: "buf_read (tbuf s) (((lastAckRec s + i) smod (W + 1)) * M) = Inr (?k mod ?R)"
      unfolding idx by (rule slot_read [OF W M Suc.prems(1)]) (use Suc.prems le in simp_all)
    let ?s1 = "s\<lparr>retrans := retrans s + 1\<rparr>" and ?sock1 = "sendFromAddr (?k mod ?R) sock"
    have unf: "tx_resend sock M W s i = tx_resend ?sock1 M W ?s1 (i + 1)"
      using rd le cnt [OF Suc.prems(1)] by (simp add: tx_resend.simps [of sock M W s i])
    have IH: "tx_resend ?sock1 M W ?s1 (i + 1) =
        Inr (?s1\<lparr>retrans := retrans ?s1 + (nxt - base - (i + 1) + 1)\<rparr>,
             ?sock1\<lparr>trace := trace ?sock1 @ map (\<lambda>k. SendFromAddr (k mod ?R)) [base + (i + 1) - 1..nxt - 1]\<rparr>)"
      using Suc.hyps(1) [of "i + 1" ?s1 ?sock1] Suc.hyps(2) Suc.prems le tx_rel_retrans by simp
    have up: "[?k..nxt - 1] = ?k # [base + (i + 1) - 1..nxt - 1]"
      using le upto_rec1 [of ?k "nxt - 1"] by simp
    show ?case using unf IH up by (simp add: sendFromAddr_def)
  qed
qed

lemma tx_advance_credit:
  assumes W: "0 < W" and M: "1 \<le> M" and rel: "tx_rel W M base nxt s" and out: "base < nxt"
    and pl: "polls sock = p # ps" "0 < p" and ib: "inbox sock = A mod (W * 2 + 1) # ms"
    and A: "base - W \<le> A" "A \<le> nxt"
  shows "tx_advance sock W s (((base + 1) mod (W + 1)) * M) =
           Inr (s\<lparr>lastAckRec := (base + ack_credit A base) mod (W + 1)\<rparr>, sock\<lparr>polls := ps, inbox := ms\<rparr>) \<and>
         tx_rel W M (base + ack_credit A base) nxt (s\<lparr>lastAckRec := (base + ack_credit A base) mod (W + 1)\<rparr>)"
proof -
  let ?R = "W * 2 + 1" and ?c = "ack_credit A base"
  have b: "0 \<le> base" "nxt \<le> base + W" and la: "lastAckRec s = base mod (W + 1)"
    using rel by (simp_all add: tx_rel_def)
  have rd: "buf_read (tbuf s) (((base + 1) mod (W + 1)) * M) = Inr (base mod ?R)"
    using slot_read [OF W M rel _ out] by simp
  have v: "ackAdvance_value (A mod ?R) (base mod ?R) W = ?c"
    using ackAdvance_value_credit [OF W, of base A] A b by (simp add: mult.commute)
  have c: "0 \<le> ?c" "base + ?c \<le> nxt" using A out by (auto simp: ack_credit_def)
  have lar': "(lastAckRec s + ?c) smod (W + 1) = (base + ?c) mod (W + 1)"
  proof -
    have "0 \<le> lastAckRec s + ?c" using la c W by simp
    then show ?thesis using la W by (simp add: mod_add_left_eq)
  qed
  show ?thesis
    using rd ackAdvance_data [OF pl ib, of "base mod ?R" W] v lar' rel c b
    by (auto simp: tx_advance_def tx_rel_def)
qed

section \<open>Properties of the sender\<close>

text \<open>
  C12 (functional).  When \<open>clientSlidingWindow\<close> returns, its first transmissions
  are exactly the frames \<open>0 .. max - 1\<close> in order, numbered modulo
  \<open>2 windowSize + 1\<close>, and the count it returns is the number of retransmissions it
  performed.
\<close>

theorem clientSlidingWindow_sends:
  assumes "clientSlidingWindow sock msgMax message W = Inr (r, sock')" and "0 < W"
  shows "\<exists>tr. trace sock' = trace sock @ tr \<and>
           sent_frames tr = map (\<lambda>k. int k mod (W * 2 + 1)) [0..<nat msgMax] \<and>
           r = int (length (filter is_resend tr))"
proof -
  obtain s' where l: "tx_loop sock msgMax W (tx_init msgMax message W) 0 = Inr (s', sock')"
    and r: "r = retrans s'"
    using assms(1) by (auto simp: clientSlidingWindow_def split: sum.splits)
  have eq: "map (\<lambda>i. (0 + int i) smod (W * 2 + 1)) [0..<nat (msgMax - 0)] =
        map (\<lambda>k. int k mod (W * 2 + 1)) [0..<nat msgMax]" using assms(2) by simp
  obtain tr where "trace sock' = trace sock @ tr"
    "sent_frames tr = map (\<lambda>i. (0 + int i) smod (W * 2 + 1)) [0..<nat (msgMax - 0)]"
    "retrans s' = retrans (tx_init msgMax message W) + int (length (filter is_resend tr))"
    using tx_loop_effect [OF l] by blast
  then show ?thesis using r by (intro exI [of _ tr]) (simp only: eq, simp add: tx_init_def)
qed

theorem clientSlidingWindow_sends_witness:
  "clientSlidingWindow \<lparr>polls = [0, 1, 1], inbox = [1, 2], clock = [0, 0, 2000, 2000], trace = []\<rparr> 2 [7, 8] 1 =
     Inr (1, \<lparr>polls = [], inbox = [], clock = [], trace = [SendTo 0, SendFromAddr 0, SendTo 1]\<rparr>) \<and>
   0 < (1::int) \<and>
   (\<exists>tr. [SendTo 0, SendFromAddr 0, SendTo 1] = [] @ tr \<and>
      sent_frames tr = map (\<lambda>k. int k mod (1 * 2 + 1)) [0..<nat 2] \<and> 1 = int (length (filter is_resend tr)))"
proof -
  have run: "clientSlidingWindow \<lparr>polls = [0, 1, 1], inbox = [1, 2], clock = [0, 0, 2000, 2000], trace = []\<rparr> 2 [7, 8] 1 =
     Inr (1, \<lparr>polls = [], inbox = [], clock = [], trace = [SendTo 0, SendFromAddr 0, SendTo 1]\<rparr>)"
    by code_simp
  show ?thesis using run clientSlidingWindow_sends [OF run] by simp
qed

text \<open>
  C21 (liveness).  Against a peer that acknowledges every frame at once, the sender
  returns for every \<open>max \<ge> 2\<close> with no retransmission, sending each frame once
  with its sequence number.
\<close>

theorem clientSlidingWindow_in_order:
  assumes "0 < W" and "2 \<le> msgMax" and "2 \<le> length message"
    and "polls sock = replicate (nat msgMax) 1 @ ps"
    and "inbox sock = map (\<lambda>k. (int k + 1) mod (W * 2 + 1)) [0..<nat msgMax] @ ms"
    and "clock sock = ts @ cs" and "length ts = nat msgMax"
  shows "clientSlidingWindow sock msgMax message W =
           Inr (0, sock\<lparr>polls := ps, inbox := ms, clock := cs,
                  trace := trace sock @ map (\<lambda>k. SendTo (int k mod (W * 2 + 1))) [0..<nat msgMax]\<rparr>)"
proof -
  have ib: "inbox sock = map (\<lambda>i. (0 + int i + 1) mod (W * 2 + 1)) [0..<nat msgMax] @ ms"
    using assms(5) by simp
  have m: "msgMax = 0 + int (nat msgMax)" using assms(2) by simp
  have i: "0 \<le> (0::int)" "lastAckRec (tx_init msgMax message W) = 0 mod (W + 1)"
    "lastFrameSent (tx_init msgMax message W) = 0 mod (W + 1)"
    "length (tbuf (tx_init msgMax message W)) = nat ((W + 1) * msgMax)"
    "2 \<le> length (tmsg (tx_init msgMax message W))"
    using assms(3) by (simp_all add: tx_init_def)
  obtain s' where "tx_loop sock msgMax W (tx_init msgMax message W) 0 =
      Inr (s', sock\<lparr>polls := ps, inbox := ms, clock := cs,
         trace := trace sock @ map (\<lambda>i. SendTo ((0 + int i) mod (W * 2 + 1))) [0..<nat msgMax]\<rparr>)"
    and "retrans s' = retrans (tx_init msgMax message W)"
    using tx_loop_in_order [OF assms(1,2) i assms(4) ib assms(6,7) m] by auto
  then show ?thesis by (simp add: clientSlidingWindow_def tx_init_def)
qed

theorem clientSlidingWindow_in_order_witness:
  "0 < (2::int) \<and> 2 \<le> (3::int) \<and> 2 \<le> length [7, 8::int] \<and>
   polls \<lparr>polls = [1, 1, 1], inbox = [1, 2, 3], clock = [0, 5, 9], trace = []\<rparr> = replicate (nat 3) 1 @ [] \<and>
   inbox \<lparr>polls = [1, 1, 1], inbox = [1, 2, 3], clock = [0, 5, 9], trace = []\<rparr> =
     map (\<lambda>k. (int k + 1) mod (2 * 2 + 1)) [0..<nat 3] @ [] \<and>
   clock \<lparr>polls = [1, 1, 1], inbox = [1, 2, 3], clock = [0, 5, 9], trace = []\<rparr> = [0, 5, 9] @ [] \<and>
   length [0, 5, 9::int] = nat 3 \<and>
   clientSlidingWindow \<lparr>polls = [1, 1, 1], inbox = [1, 2, 3], clock = [0, 5, 9], trace = []\<rparr> 3 [7, 8] 2 =
     Inr (0, \<lparr>polls = [], inbox = [], clock = [], trace = [SendTo 0, SendTo 1, SendTo 2]\<rparr>)"
  using clientSlidingWindow_in_order [of 2 3 "[7, 8]" "\<lparr>polls = [1, 1, 1], inbox = [1, 2, 3], clock = [0, 5, 9], trace = []\<rparr>"
      "[]" "[]" "[0, 5, 9]" "[]"]
  by (simp add: upt_rec eval_nat_numeral)

text \<open>
  C19 (functional).  On a timeout, the sender retransmits every outstanding frame
  \<open>base .. nxt - 1\<close>, oldest first and once each, counts each retransmission and
  restarts the timer (Go-Back-N, specification scenario B).  This is what the code and
  the specification's algorithm do.  The function's own comment (lines 92-94) promises
  less: that a timeout resends only the unacknowledged frame with the smallest sequence
  number.  Each resend sends from the address named by the stored sequence number
  (\<open>SendFromAddr\<close>, line 127), not the buffered frame.
\<close>

theorem tx_timeout_go_back_n:
  assumes "0 < W" and "1 \<le> M" and "tx_rel W M base nxt s"
    and "clock sock = t1 # t2 # ts" and "MAX_TIME < t1 - tstart s"
  shows "tx_timeout sock M W s =
           Inr (s\<lparr>retrans := retrans s + (nxt - base), tstart := t2\<rparr>,
                sock\<lparr>clock := ts,
                     trace := trace sock @ map (\<lambda>k. SendFromAddr (k mod (W * 2 + 1))) [base..nxt - 1]\<rparr>)"
proof -
  have b: "base \<le> nxt" using assms(3) by (simp add: tx_rel_def)
  have "tx_resend (sock\<lparr>clock := t2 # ts\<rparr>) M W s 1 =
      Inr (s\<lparr>retrans := retrans s + (nxt - base)\<rparr>,
           sock\<lparr>clock := t2 # ts, trace := trace sock @ map (\<lambda>k. SendFromAddr (k mod (W * 2 + 1))) [base..nxt - 1]\<rparr>)"
    using tx_resend_outstanding [OF assms(1-3), of 1 "sock\<lparr>clock := t2 # ts\<rparr>"] b by simp
  then show ?thesis using assms(4,5) by (simp add: tx_timeout_def timer_lap_def timer_start_def)
qed

theorem tx_timeout_go_back_n_witness:
  "tx_rel 2 2 0 2 \<lparr>retrans = 0, lastAckRec = 0, lastFrameSent = 2,
      tbuf = [None, None, Some 0, Some 8, Some 1, Some 8], tmsg = [1, 8], tstart = 0\<rparr> \<and>
   tx_timeout \<lparr>polls = [], inbox = [], clock = [2000, 2001], trace = []\<rparr> 2 2
      \<lparr>retrans = 0, lastAckRec = 0, lastFrameSent = 2,
       tbuf = [None, None, Some 0, Some 8, Some 1, Some 8], tmsg = [1, 8], tstart = 0\<rparr> =
     Inr (\<lparr>retrans = 2, lastAckRec = 0, lastFrameSent = 2,
            tbuf = [None, None, Some 0, Some 8, Some 1, Some 8], tmsg = [1, 8], tstart = 2001\<rparr>,
          \<lparr>polls = [], inbox = [], clock = [], trace = [SendFromAddr 0, SendFromAddr 1]\<rparr>)"
proof -
  let ?s = "\<lparr>retrans = 0, lastAckRec = 0, lastFrameSent = 2,
      tbuf = [None, None, Some 0, Some 8, Some 1, Some 8], tmsg = [1, 8], tstart = 0\<rparr>"
  have rel: "tx_rel 2 2 0 2 ?s"
  proof (unfold tx_rel_def, intro conjI allI impI)
    fix k :: int assume "0 \<le> k \<and> k < 2"
    then have "k = 0 \<or> k = 1" by arith
    then show "tbuf ?s ! nat (((k + 1) mod (2 + 1)) * 2) = Some (k mod (2 * 2 + 1))" by auto
  qed simp_all
  show ?thesis
    using rel tx_timeout_go_back_n [OF _ _ rel, of "\<lparr>polls = [], inbox = [], clock = [2000, 2001], trace = []\<rparr>" 2000 2001 "[]"]
    by (simp add: MAX_TIME_def upto.simps)
qed

text \<open>
  C3 (refinement).  The acknowledgment update of line 147 implements the
  abstract Go-Back-N trailing edge: a cumulative acknowledgment \<open>A\<close> between
  \<open>base - windowSize\<close> and the next frame to send moves the trailing edge to
  \<open>base + max 0 (A - base)\<close> and keeps the sender invariant.
\<close>

theorem tx_advance_refines:
  assumes W: "0 < W" and M: "1 \<le> M" and rel: "tx_rel W M base nxt s" and out: "base < nxt"
    and pl: "polls sock = p # ps" "0 < p" and ib: "inbox sock = A mod (W * 2 + 1) # ms"
    and A: "base - W \<le> A" "A \<le> nxt"
  shows "\<exists>s'. tx_advance sock W s (((lastAckRec s + 1) smod (W + 1)) * M) =
           Inr (s', sock\<lparr>polls := ps, inbox := ms\<rparr>) \<and>
         tx_rel W M (base + ack_credit A base) nxt s'"
proof -
  have "lastAckRec s = base mod (W + 1)" using rel by (simp add: tx_rel_def)
  then have "(lastAckRec s + 1) smod (W + 1) = (base + 1) mod (W + 1)" using succ_slot [of W base] W by simp
  then show ?thesis using tx_advance_credit [OF W M rel out pl ib A] by auto
qed

text \<open>
  C23 (error).  Line 135 indexes \<open>buffer[(lastAckRec + 1) * max]\<close> without the
  \<open>% (windowSize + 1)\<close> of line 147: whenever the window is full while
  \<open>lastAckRec = windowSize\<close>, the read is one slot past the end of the buffer.
\<close>

theorem tx_wait_full_window_oob:
  assumes "lastAckRec s = W" and "lastAckRec s = (lastFrameSent s + 1) smod (W + 1)"
    and "length (tbuf s) = nat ((W + 1) * M)" and "0 \<le> (W + 1) * M"
    and "tx_timeout sock M W s = Inr (s1, sock1)"
  shows "tx_wait sock M W s = Inl (OutOfBounds ((W + 1) * M))"
proof -
  have s1: "lastAckRec s1 = W" "tbuf s1 = tbuf s"
    using arg_cong [OF conjunct2 [OF tx_timeout_effect [OF assms(5)]], of lastAckRec]
      arg_cong [OF conjunct2 [OF tx_timeout_effect [OF assms(5)]], of tbuf] assms(1) by simp_all
  have "buf_read (tbuf s1) ((lastAckRec s1 + 1) * M) = Inl (OutOfBounds ((W + 1) * M))"
    using s1 assms(3,4) by (simp add: buf_read_def c_read_def)
  then show ?thesis using assms(2,5) by (simp add: tx_wait.simps [of sock M W s] tx_advance_def)
qed

lemma tx_rel_example:
  "tx_rel 2 2 0 2 \<lparr>retrans = 0, lastAckRec = 0, lastFrameSent = 2,
      tbuf = [None, None, Some 0, Some 8, Some 1, Some 8], tmsg = [1, 8], tstart = 0\<rparr>"
proof (unfold tx_rel_def, intro conjI allI impI)
  fix k :: int assume "0 \<le> k \<and> k < 2"
  then have "k = 0 \<or> k = 1" by arith
  then show "tbuf \<lparr>retrans = 0, lastAckRec = 0, lastFrameSent = 2,
      tbuf = [None, None, Some 0, Some 8, Some 1, Some 8], tmsg = [1, 8], tstart = 0\<rparr> !
      nat (((k + 1) mod (2 + 1)) * 2) = Some (k mod (2 * 2 + 1))" by auto
qed simp_all

theorem tx_advance_refines_witness:
  "\<exists>s'. tx_advance \<lparr>polls = [1], inbox = [2], clock = [], trace = []\<rparr> 2
      \<lparr>retrans = 0, lastAckRec = 0, lastFrameSent = 2,
       tbuf = [None, None, Some 0, Some 8, Some 1, Some 8], tmsg = [1, 8], tstart = 0\<rparr> 2 =
      Inr (s', \<lparr>polls = [], inbox = [], clock = [], trace = []\<rparr>) \<and> tx_rel 2 2 2 2 s'"
  using tx_advance_refines [OF _ _ tx_rel_example, where sock = "\<lparr>polls = [1], inbox = [2], clock = [], trace = []\<rparr>"
      and p = 1 and ps = "[]" and A = 2 and ms = "[]"]
  by (simp add: ack_credit_def)

theorem tx_wait_full_window_oob_witness:
  "tx_wait \<lparr>polls = [], inbox = [], clock = [0], trace = []\<rparr> 3 1
     \<lparr>retrans = 0, lastAckRec = 1, lastFrameSent = 0,
      tbuf = [Some 1, Some 8, None, None, Some 0, Some 8], tmsg = [1, 8], tstart = 0\<rparr> = Inl (OutOfBounds 6)"
proof -
  let ?s = "\<lparr>retrans = 0, lastAckRec = 1, lastFrameSent = 0,
      tbuf = [Some 1, Some 8, None, None, Some 0, Some 8], tmsg = [1, 8], tstart = 0\<rparr>"
  have t: "tx_timeout \<lparr>polls = [], inbox = [], clock = [0], trace = []\<rparr> 3 1 ?s =
      Inr (?s, \<lparr>polls = [], inbox = [], clock = [], trace = []\<rparr>)"
    by (simp add: tx_timeout_def timer_lap_def MAX_TIME_def)
  show ?thesis using tx_wait_full_window_oob [OF _ _ _ _ t] by simp
qed

text \<open>
  C36 (error).  The copy loop of lines 143-145 stores \<open>sizeof(message) / sizeof(int) = 2\<close>
  words into a buffer slot of \<open>max\<close> words.  With \<open>max = 1\<close>, the second word of a
  frame lands in the next slot, which belongs to another frame.  When the frame itself
  goes into the last slot \<open>windowSize\<close>, the second word is written one past the end of
  the \<open>windowSize + 1\<close>-element buffer.
\<close>

theorem tx_copy_single_word_slots:
  assumes W: "0 < W" and len: "length (tbuf s) = nat (W + 1)" and msg: "2 \<le> length (tmsg s)"
    and lf: "0 \<le> lastFrameSent s" "lastFrameSent s \<le> W"
  shows "tx_copy 1 s 0 =
           (if lastFrameSent s = W then Inl (OutOfBounds (W + 1))
            else Inr (s\<lparr>tbuf := (tbuf s)[nat (lastFrameSent s) := Some (tmsg s ! 0),
                                        nat (lastFrameSent s + 1) := Some (tmsg s ! 1)]\<rparr>))"
proof (cases "lastFrameSent s = W")
  case True
  have m: "0 < int (length (tmsg s))" "1 < int (length (tmsg s))" using msg by linarith+
  let ?s1 = "s\<lparr>tbuf := (tbuf s)[nat W := Some (tmsg s ! 0)]\<rparr>"
  have c1: "tx_copy 1 s 0 = tx_copy 1 ?s1 1"
    using True W len m by (simp add: tx_copy.simps [of 1 s 0] ptr_words_def)
  have "tx_copy 1 ?s1 1 = Inl (OutOfBounds (W + 1))"
    using True W len m by (simp add: tx_copy.simps [of 1 ?s1 1] ptr_words_def c_write_def)
  then show ?thesis using c1 True by simp
next
  case False
  then have "lastFrameSent s * 1 + 1 < int (length (tbuf s))" using lf len by simp
  then show ?thesis using tx_copy_words [of s 1] False lf msg by simp
qed

theorem tx_copy_single_word_slots_witness:
  "0 < (1::int) \<and>
   length (tbuf ((tx_init 1 [7, 8] 1)\<lparr>lastFrameSent := 1\<rparr>)) = nat (1 + 1) \<and>
   2 \<le> length (tmsg ((tx_init 1 [7, 8] 1)\<lparr>lastFrameSent := 1\<rparr>)) \<and>
   0 \<le> lastFrameSent ((tx_init 1 [7, 8] 1)\<lparr>lastFrameSent := 1\<rparr>) \<and>
   lastFrameSent ((tx_init 1 [7, 8] 1)\<lparr>lastFrameSent := 1\<rparr>) \<le> 1 \<and>
   tx_copy 1 ((tx_init 1 [7, 8] 1)\<lparr>lastFrameSent := 1\<rparr>) 0 = Inl (OutOfBounds 2)"
  using tx_copy_single_word_slots [of 1 "(tx_init 1 [7, 8] 1)\<lparr>lastFrameSent := 1\<rparr>"]
  by (simp add: tx_init_def)

end
