(* ===== verification/SenderState.thy ===== *)
theory SenderState
  imports WindowSender
begin

text \<open>
  The sender of \<^verbatim>\<open>clientSlidingWindow\<close> as a state machine: \<open>tx_reach\<close>
  holds of the states one pass of the for loop (\<open>tx_body\<close>) reaches from
  \<open>tx_init\<close> when every acknowledgment on the wire is non-negative and at most
  \<open>INT_MAX - seqRange\<close>.  The type
  invariant \<open>tx_wf\<close> says what the C declarations leave implicit: the two queue
  indices stay in \<open>[0, windowSize]\<close>, the buffer and the message keep their size,
  and every buffered sequence number lies in the sequence range.
\<close>

section \<open>Type invariant and reachable states\<close>

definition slots_ok :: "int \<Rightarrow> int \<Rightarrow> int option list \<Rightarrow> bool" where
  "slots_ok W M b \<longleftrightarrow>
     list_all (\<lambda>j. case b ! nat (j * M) of None \<Rightarrow> True | Some v \<Rightarrow> 0 \<le> v \<and> v < W * 2 + 1) [0..W]"

definition tx_wf :: "int \<Rightarrow> int \<Rightarrow> tx_state \<Rightarrow> bool" where
  "tx_wf W M s \<longleftrightarrow>
     0 \<le> lastAckRec s \<and> lastAckRec s \<le> W \<and> 0 \<le> lastFrameSent s \<and> lastFrameSent s \<le> W \<and>
     length (tbuf s) = nat ((W + 1) * M) \<and> 2 \<le> length (tmsg s) \<and> slots_ok W M (tbuf s)"

abbreviation acks_ok :: "int \<Rightarrow> env \<Rightarrow> bool" where
  "acks_ok W sock \<equiv> list_all (\<lambda>a. 0 \<le> a \<and> a \<le> INT_MAX - (W * 2 + 1)) (inbox sock)"

inductive tx_reach :: "int \<Rightarrow> int \<Rightarrow> int list \<Rightarrow> tx_state \<Rightarrow> bool"
  for W M :: int and message :: "int list" where
  init: "tx_reach W M message (tx_init M message W)"
| step: "tx_reach W M message s \<Longrightarrow> acks_ok W sock \<Longrightarrow> 0 \<le> k \<Longrightarrow>
           tx_body sock M W s k = Inr (s', sock') \<Longrightarrow> tx_reach W M message s'"

section \<open>Helper lemmas\<close>

lemma slots_okD:
  assumes "slots_ok W M b" "0 \<le> j" "j \<le> W" "b ! nat (j * M) = Some v"
  shows "0 \<le> v \<and> v < W * 2 + 1"
proof -
  have "case b ! nat (j * M) of None \<Rightarrow> True | Some v \<Rightarrow> 0 \<le> v \<and> v < W * 2 + 1"
    using assms(1-3) by (simp add: slots_ok_def list_all_iff)
  then show ?thesis using assms(4) by simp
qed

lemma buf_read_slot:
  assumes "tx_wf W M s" "0 \<le> j" "j \<le> W" "buf_read (tbuf s) (j * M) = Inr v"
  shows "0 \<le> v \<and> v < W * 2 + 1"
  using assms slots_okD [of W M "tbuf s" j v]
  by (auto simp: tx_wf_def buf_read_def c_read_def split: if_splits option.splits)

lemma slot_index_ne:
  fixes j l M :: int
  assumes "2 \<le> M" "0 \<le> j" "0 \<le> l"
  shows "nat (j * M) \<noteq> nat (l * M + 1)" and "nat (j * M) = nat (l * M) \<longleftrightarrow> j = l"
proof -
  show "nat (j * M) \<noteq> nat (l * M + 1)"
  proof
    assume e: "nat (j * M) = nat (l * M + 1)"
    have "0 \<le> j * M" "0 \<le> l * M + 1" using assms by simp_all
    then have "j * M = l * M + 1" using e by (simp add: eq_nat_nat_iff)
    then have "(j - l) * M = 1" by (simp add: algebra_simps)
    then have "M dvd 1" by (metis dvd_triv_right)
    then show False using assms by (simp add: zdvd1_eq [of M] abs_if split: if_splits)
  qed
  show "nat (j * M) = nat (l * M) \<longleftrightarrow> j = l" using assms by (simp add: eq_nat_nat_iff)
qed

lemma slots_ok_store:
  assumes M: "2 \<le> M" and ok: "slots_ok W M b" and l: "0 \<le> l" "l \<le> W"
    and len: "length b = nat ((W + 1) * M)"
    and v: "0 \<le> v" "v < W * 2 + 1"
  shows "slots_ok W M (b[nat (l * M) := Some v, nat (l * M + 1) := Some x])"
  unfolding slots_ok_def list_all_iff
proof
  fix j assume "j \<in> set [0..W]"
  then have j: "0 \<le> j" "j \<le> W" by simp_all
  have ne: "nat (j * M) \<noteq> nat (l * M + 1)" using slot_index_ne(1) [OF M j(1) l(1)] .
  show "case b[nat (l * M) := Some v, nat (l * M + 1) := Some x] ! nat (j * M) of
          None \<Rightarrow> True | Some v \<Rightarrow> 0 \<le> v \<and> v < W * 2 + 1"
  proof (cases "j = l")
    case True
    have "nat (l * M) < length b" using slot_index_bounds [OF l M] len by linarith
    then show ?thesis using True ne v by (simp add: nth_list_update)
  next
    case False
    then have "nat (j * M) \<noteq> nat (l * M)" using slot_index_ne(2) [OF M j(1) l(1)] by simp
    then show ?thesis using ne ok j by (simp add: nth_list_update slots_ok_def list_all_iff)
  qed
qed

lemma tx_resend_inbox:
  "tx_resend sock M W s i = Inr (s', sock') \<Longrightarrow> inbox sock' = inbox sock"
proof (induction sock M W s i rule: tx_resend.induct)
  case (1 sock M W s i)
  then show ?case
    by (auto simp: tx_resend.simps [of sock M W s i] split: if_splits sum.splits)
qed

lemma tx_timeout_inbox:
  "tx_timeout sock M W s = Inr (s', sock') \<Longrightarrow> inbox sock' = inbox sock"
  by (auto simp: tx_timeout_def split: sum.splits prod.splits if_splits
      dest!: tx_resend_inbox inbox_unchanged(2) inbox_unchanged(3))

lemma tx_timeout_wf:
  assumes "tx_timeout sock M W s = Inr (s', sock')" and "tx_wf W M s" and "acks_ok W sock"
  shows "tx_wf W M s' \<and> acks_ok W sock'"
proof -
  have "s' = s\<lparr>retrans := retrans s', tstart := tstart s'\<rparr>"
    using tx_timeout_effect [OF assms(1)] by blast
  moreover have "tx_wf W M (s\<lparr>retrans := r, tstart := t\<rparr>) = tx_wf W M s" for r t
    by (simp add: tx_wf_def)
  ultimately have "tx_wf W M s'" using assms(2) by metis
  moreover have "inbox sock' = inbox sock" using tx_timeout_inbox [OF assms(1)] .
  ultimately show ?thesis using assms(3) by simp
qed

lemma lar_update_range:
  fixes l a W :: int
  assumes "0 \<le> l" "0 \<le> a" "0 \<le> W"
  shows "0 \<le> (l + a) smod (W + 1) \<and> (l + a) smod (W + 1) \<le> W"
  using assms pos_mod_bound [of "W + 1" "l + a"] by simp

lemma tx_advance_wf:
  assumes W: "0 < W" and M: "2 \<le> M" and wf: "tx_wf W M s" and nn: "acks_ok W sock"
    and j: "0 \<le> j" "j \<le> W + 1"
    and adv: "tx_advance sock W s (j * M) = Inr (s', sock')"
  shows "tx_wf W M s' \<and> acks_ok W sock'"
proof -
  obtain v a where rd: "buf_read (tbuf s) (j * M) = Inr v" and ac: "ackAdvance sock v W = Inr (a, sock')"
    and s': "s' = s\<lparr>lastAckRec := (lastAckRec s + a) smod (W + 1)\<rparr>"
    using adv by (auto simp: tx_advance_def split: sum.splits)
  have jw: "j \<le> W"
  proof (rule ccontr)
    assume "\<not> j \<le> W"
    then have "j = W + 1" using j by simp
    then have "buf_read (tbuf s) (j * M) = Inl (OutOfBounds (j * M))"
      using wf M W by (simp add: tx_wf_def buf_read_def c_read_def)
    then show False using rd by simp
  qed
  have v: "0 \<le> v" "v < 2 * W + 1" using buf_read_slot [OF wf j(1) jw rd] by simp_all
  have "0 \<le> a \<and> inbox sock' = inbox sock \<or> 0 \<le> a \<and> (\<exists>x. inbox sock = x # inbox sock')"
    using ac
  proof (cases rule: ackAdvance_Inr_cases)
    case (1 p ps)
    then show ?thesis by simp
  next
    case (2 p ps x ms)
    then have "0 \<le> x" using nn by simp
    then show ?thesis using 2 ackAdvance_value_range [OF W _ v(2)] by auto
  qed
  then have a: "0 \<le> a" and ib: "acks_ok W sock'" using nn by auto
  have "0 \<le> lastAckRec s" using wf by (simp add: tx_wf_def)
  then show ?thesis using lar_update_range [of "lastAckRec s" a W] a W wf ib s'
    by (simp add: tx_wf_def)
qed

lemma tx_wait_wf:
  "tx_wait sock M W s = Inr (s', sock') \<Longrightarrow> 0 < W \<Longrightarrow> 2 \<le> M \<Longrightarrow> tx_wf W M s \<Longrightarrow>
     acks_ok W sock \<Longrightarrow> tx_wf W M s' \<and> acks_ok W sock'"
proof (induction sock M W s rule: tx_wait.induct)
  case (1 sock M W s)
  show ?case
  proof (cases "lastAckRec s = (lastFrameSent s + 1) smod (W + 1)")
    case False
    then show ?thesis using "1.prems" by (simp add: tx_wait.simps [of sock M W s])
  next
    case True
    then obtain s1 sock1 s2 sock2 where t: "tx_timeout sock M W s = Inr (s1, sock1)"
      and a: "tx_advance sock1 W s1 ((lastAckRec s1 + 1) * M) = Inr (s2, sock2)"
      and w: "tx_wait sock2 M W s2 = Inr (s', sock')"
      using "1.prems"(1) by (auto simp: tx_wait.simps [of sock M W s] split: sum.splits)
    have ok1: "tx_wf W M s1 \<and> acks_ok W sock1" using tx_timeout_wf [OF t "1.prems"(4,5)] .
    have j: "0 \<le> lastAckRec s1 + 1" "lastAckRec s1 + 1 \<le> W + 1" using ok1 by (simp_all add: tx_wf_def)
    have ok2: "tx_wf W M s2 \<and> acks_ok W sock2"
      using tx_advance_wf [OF "1.prems"(2,3) conjunct1 [OF ok1] conjunct2 [OF ok1] j a] .
    show ?thesis using "1.IH" [OF True t refl a refl w "1.prems"(2,3)] ok2 by blast
  qed
qed

lemma tx_body_wf:
  assumes W: "0 < W" and M: "2 \<le> M" and wf: "tx_wf W M s" and nn: "acks_ok W sock"
    and k: "0 \<le> k" and b: "tx_body sock M W s k = Inr (s', sock')"
  shows "tx_wf W M s' \<and> acks_ok W sock'"
proof -
  let ?R = "W * 2 + 1"
  obtain t sock1 s2 sock2 m s4 where ts: "timer_start sock = Inr (t, sock1)"
    and w: "tx_wait sock1 M W (s\<lparr>tstart := t\<rparr>) = Inr (s2, sock2)"
    and cw: "c_write (tmsg s2) 0 (k smod ?R) = Inr m"
    and cp: "tx_copy M (s2\<lparr>tmsg := m, lastFrameSent := (lastFrameSent s2 + 1) smod (W + 1)\<rparr>) 0 = Inr s4"
    and a: "tx_advance (sendTo (m ! 0) sock2) W s4 (((lastAckRec s4 + 1) smod (W + 1)) * M) = Inr (s', sock')"
    using b by (auto simp: tx_body_def Let_def split: sum.splits)
  have ok1: "tx_wf W M (s\<lparr>tstart := t\<rparr>)" "acks_ok W sock1"
    using wf nn inbox_unchanged(2) [OF ts] by (simp_all add: tx_wf_def)
  have ok2: "tx_wf W M s2 \<and> acks_ok W sock2" using tx_wait_wf [OF w W M ok1] .
  have m: "m = (tmsg s2)[0 := k mod ?R]" "length m = length (tmsg s2)"
    using cw k W by (auto simp: c_write_Inr_iff)
  have "2 \<le> length (tmsg s2)" using ok2 by (simp add: tx_wf_def)
  then have "0 < length (tmsg s2)" by linarith
  then have m0: "m ! 0 = k mod ?R" using m by simp
  let ?l = "(lastFrameSent s2 + 1) smod (W + 1)"
  let ?s3 = "s2\<lparr>tmsg := m, lastFrameSent := ?l\<rparr>"
  have l: "0 \<le> ?l" "?l \<le> W" using lar_update_range [of "lastFrameSent s2" 1 W] ok2 W by (simp_all add: tx_wf_def)
  note bd = slot_index_bounds [OF l M]
  have s4: "s4 = ?s3\<lparr>tbuf := (tbuf s2)[nat (?l * M) := Some (k mod ?R), nat (?l * M + 1) := Some (m ! 1)]\<rparr>"
    using tx_copy_words [of ?s3 M] bd ok2 m m0 cp W M by (simp add: tx_wf_def)
  have v: "0 \<le> k mod ?R" "k mod ?R < W * 2 + 1" using W pos_mod_bound [of ?R k] by simp_all
  have ok4: "tx_wf W M s4"
    using s4 ok2 l m slots_ok_store [OF M _ l _ v, of "tbuf s2" "m ! 1"] by (simp add: tx_wf_def)
  let ?j = "(lastAckRec s4 + 1) smod (W + 1)"
  have j: "0 \<le> ?j" "?j \<le> W + 1"
    using lar_update_range [of "lastAckRec s4" 1 W] ok4 W by (simp_all add: tx_wf_def)
  have "acks_ok W (sendTo (m ! 0) sock2)" using ok2 by simp
  then show ?thesis using tx_advance_wf [OF W M ok4 _ j a] by blast
qed

lemma tx_init_wf:
  assumes W: "0 < W" and M: "2 \<le> M" and msg: "2 \<le> length message"
  shows "tx_wf W M (tx_init M message W)"
proof -
  have "nat (j * M) < nat ((W + 1) * M)" if "0 \<le> j" "j \<le> W" for j
    using slot_index_bounds [OF that M] by linarith
  then show ?thesis using W M msg by (simp add: tx_wf_def tx_init_def slots_ok_def list_all_iff)
qed

lemma tx_wait_exit:
  "tx_wait sock M W s = Inr (s', sock') \<Longrightarrow> lastAckRec s' \<noteq> (lastFrameSent s' + 1) smod (W + 1)"
proof (induction sock M W s rule: tx_wait.induct)
  case (1 sock M W s)
  show ?case
  proof (cases "lastAckRec s = (lastFrameSent s + 1) smod (W + 1)")
    case False
    then show ?thesis using "1.prems" by (simp add: tx_wait.simps [of sock M W s])
  next
    case True
    then obtain s1 sock1 s2 sock2 where t: "tx_timeout sock M W s = Inr (s1, sock1)"
      and a: "tx_advance sock1 W s1 ((lastAckRec s1 + 1) * M) = Inr (s2, sock2)"
      and w: "tx_wait sock2 M W s2 = Inr (s', sock')"
      using "1.prems" by (auto simp: tx_wait.simps [of sock M W s] split: sum.splits)
    show ?thesis by (rule "1.IH" [OF True t refl a refl w])
  qed
qed

section \<open>Properties of the sender state machine\<close>





end
