(* ===== verification/SenderRefinement.thy ===== *)
theory SenderRefinement
  imports SenderState
begin

text \<open>
  The sliding-window sender of \<^verbatim>\<open>clientSlidingWindow\<close> (lines 118-149) against
  an abstract Go-Back-N sender whose frames \<open>base .. nxt - 1\<close> are outstanding,
  related by \<open>tx_rel\<close> of \<open>WindowSender\<close>.  \<open>acks_from W lo hi As sock\<close> says
  that the acknowledgments the socket will deliver are the residues of the absolute
  frame numbers \<open>As\<close>, each in \<open>[lo, hi]\<close>: what a receiver that has seen
  frames up to \<open>hi - 1\<close> can send.  The lemmas lift the one-step refinement of the
  acknowledgment update (\<open>tx_advance_credit\<close>) to the timeout branch, the
  full-window loop \<open>tx_wait\<close> and one pass \<open>tx_body\<close> of the for loop.  The
  only faults left are running out of input and the out-of-bounds read of line 135.
  The abstract trailing edge after the acknowledgments consumed is \<open>gbn_base\<close>.
  The lemmas split the polls and acknowledgments a pass consumes into those of the
  wait and that of the final update, so that the send is shown to wait for room.
  \<open>tx_gbn_run\<close> follows the abstract edge along a run of the for loop, and
  \<open>tx_gbn_reach\<close> collects the states such runs reach.  The abstraction function
  \<open>tx_base\<close> recovers the edge from the code's own outstanding count.
\<close>

section \<open>Acknowledgments on the wire\<close>

definition acks_from :: "int \<Rightarrow> int \<Rightarrow> int \<Rightarrow> int list \<Rightarrow> env \<Rightarrow> bool" where
  "acks_from W lo hi As sock \<longleftrightarrow>
     inbox sock = map (\<lambda>A. A mod (W * 2 + 1)) As \<and> list_all (\<lambda>A. lo \<le> A \<and> A \<le> hi) As"

text \<open>
  The abstract Go-Back-N sender's trailing edge after the cumulative acknowledgments
  \<open>As\<close>, in the order they arrive.  An acknowledgment \<open>A\<close> (the receiver expects
  frame \<open>A\<close> next) moves the edge to \<open>A\<close> when it is ahead of it and is
  ignored otherwise.
\<close>

definition gbn_base :: "int \<Rightarrow> int list \<Rightarrow> int" where
  "gbn_base base As = foldl max base As"

text \<open>
  The abstraction function: the trailing edge of the abstract sender is \<open>nxt\<close> minus the
  code's own count of outstanding frames, the loop bound of lines 125-126.
\<close>

definition tx_base :: "int \<Rightarrow> int \<Rightarrow> tx_state \<Rightarrow> int" where
  "tx_base W nxt s = nxt - (lastFrameSent s - lastAckRec s + W + 1) smod (W + 1)"

text \<open>
  The states the for loop reaches from \<open>tx_init\<close> when, during the pass that sends
  frame \<open>nxt\<close>, every acknowledgment on the wire is for one of the frames
  \<open>nxt - windowSize .. nxt\<close>: what a receiver of the frames sent so far can send.
\<close>

inductive tx_gbn_reach :: "int \<Rightarrow> int \<Rightarrow> int list \<Rightarrow> int \<Rightarrow> tx_state \<Rightarrow> bool"
  for W M :: int and message :: "int list" where
  init: "tx_gbn_reach W M message 0 (tx_init M message W)"
| step: "tx_gbn_reach W M message nxt s \<Longrightarrow> acks_from W (nxt - W) nxt As sock \<Longrightarrow>
           tx_body sock M W s nxt = Inr (s', sock') \<Longrightarrow> tx_gbn_reach W M message (nxt + 1) s'"

text \<open>
  Runs of the for loop that track the abstract trailing edge: \<open>tx_gbn_run W M message base
  nxt s\<close> holds when \<open>s\<close> is the state after the passes for frames \<open>0 .. nxt - 1\<close>, each
  under plausible acknowledgments, and \<open>base\<close> is the cumulative effect of the
  acknowledgments the passes consumed (\<open>pre\<close> of the step; \<open>As'\<close> is what the pass left
  on the wire).
\<close>

inductive tx_gbn_run :: "int \<Rightarrow> int \<Rightarrow> int list \<Rightarrow> int \<Rightarrow> int \<Rightarrow> tx_state \<Rightarrow> bool"
  for W M :: int and message :: "int list" where
  init: "tx_gbn_run W M message 0 0 (tx_init M message W)"
| step: "tx_gbn_run W M message base nxt s \<Longrightarrow> acks_from W (nxt - W) nxt (pre @ As') sock \<Longrightarrow>
           tx_body sock M W s nxt = Inr (s', sock') \<Longrightarrow> inbox sock' = map (\<lambda>A. A mod (W * 2 + 1)) As' \<Longrightarrow>
           tx_gbn_run W M message (gbn_base base pre) (nxt + 1) s'"

section \<open>Helper lemmas\<close>

lemma tx_rel_frame:
  "tx_rel W M base nxt (s\<lparr>retrans := r\<rparr>) = tx_rel W M base nxt s"
  "tx_rel W M base nxt (s\<lparr>tstart := t\<rparr>) = tx_rel W M base nxt s"
  "tx_rel W M base nxt (s\<lparr>tmsg := m\<rparr>) = tx_rel W M base nxt s"
  by (simp_all add: tx_rel_def)

lemma acks_from_update [simp]:
  "acks_from W lo hi As (sock\<lparr>polls := ps\<rparr>) = acks_from W lo hi As sock"
  "acks_from W lo hi As (sock\<lparr>clock := cs\<rparr>) = acks_from W lo hi As sock"
  "acks_from W lo hi As (sock\<lparr>trace := tr\<rparr>) = acks_from W lo hi As sock"
  by (simp_all add: acks_from_def)

lemma acks_from_frame:
  "inbox sock' = inbox sock \<Longrightarrow> acks_from W lo hi As sock' = acks_from W lo hi As sock"
  by (simp add: acks_from_def)

lemma tx_window_full:
  assumes W: "0 < W" and rel: "tx_rel W M base nxt s"
  shows "lastAckRec s = (lastFrameSent s + 1) smod (W + 1) \<longleftrightarrow> nxt - base = W"
proof -
  have b: "0 \<le> base" "base \<le> nxt" "nxt \<le> base + W" and la: "lastAckRec s = base mod (W + 1)"
    and lf: "lastFrameSent s = nxt mod (W + 1)" using rel by (simp_all add: tx_rel_def)
  have "(lastFrameSent s + 1) smod (W + 1) = (nxt + 1) mod (W + 1)" using lf succ_slot [of W nxt] W by simp
  moreover have "base mod (W + 1) = (nxt + 1) mod (W + 1) \<longleftrightarrow> nxt - base = W"
  proof
    assume "base mod (W + 1) = (nxt + 1) mod (W + 1)"
    then have "nxt + 1 < base + (W + 1) \<Longrightarrow> nxt + 1 = base"
      using mod_window_inj [of base base "W + 1" "nxt + 1"] b W by simp
    then show "nxt - base = W" using b by linarith
  next
    assume "nxt - base = W"
    then have "nxt + 1 = base + (W + 1)" by simp
    then show "base mod (W + 1) = (nxt + 1) mod (W + 1)" by (metis mod_add_self2)
  qed
  ultimately show ?thesis using la by simp
qed

lemma tx_timeout_gbn:
  assumes W: "0 < W" and M: "1 \<le> M" and rel: "tx_rel W M base nxt s"
  shows "tx_timeout sock M W s = Inl Starved \<or>
         (\<exists>s' sock'. tx_timeout sock M W s = Inr (s', sock') \<and> tx_rel W M base nxt s' \<and>
            inbox sock' = inbox sock \<and> resends_only s sock s' sock' \<and> tmsg s' = tmsg s)"
proof (cases "tx_timeout sock M W s")
  case (Inl f)
  have b: "1 \<le> nxt - base + 1" using rel by (simp add: tx_rel_def)
  have "tx_timeout sock M W s \<in> {Inl Starved} \<union> range Inr"
  proof (cases "clock sock")
    case Nil
    then show ?thesis by (simp add: tx_timeout_def timer_lap_def)
  next
    case (Cons t ts)
    then show ?thesis using tx_resend_outstanding [OF W M rel order.refl b, of "sock\<lparr>clock := ts\<rparr>"]
      by (cases ts) (simp_all add: tx_timeout_def timer_lap_def timer_start_def)
  qed
  then show ?thesis using Inl by auto
next
  case (Inr r)
  then obtain s' sock' where t: "tx_timeout sock M W s = Inr (s', sock')" by (cases r) auto
  have e: "s' = s\<lparr>retrans := retrans s', tstart := tstart s'\<rparr>" "resends_only s sock s' sock'"
    using tx_timeout_effect [OF t] by auto
  have "tx_rel W M base nxt s'" using rel by (subst e(1)) (simp add: tx_rel_frame)
  moreover have "tmsg s' = tmsg s" by (subst e(1)) simp
  ultimately show ?thesis using t e(2) tx_timeout_inbox [OF t] by blast
qed

lemma gbn_base_simps [simp]:
  "gbn_base base [] = base" "gbn_base base [A] = max base A"
  "gbn_base base (xs @ ys) = gbn_base (gbn_base base xs) ys"
  by (simp_all add: gbn_base_def)

lemma gbn_base_ge: "base \<le> gbn_base base As"
  by (induction As arbitrary: base) (auto simp: gbn_base_def intro: order.trans [OF max.cobounded1])

lemma gbn_base_le: "list_all (\<lambda>A. A \<le> hi) As \<Longrightarrow> gbn_base base As \<le> max base hi"
proof (induction As arbitrary: base)
  case (Cons a As)
  have "gbn_base (max base a) As \<le> max (max base a) hi" using Cons by simp
  moreover have "max (max base a) hi = max base hi" using Cons.prems by (simp add: max_def)
  moreover have "gbn_base base (a # As) = gbn_base (max base a) As" by (simp add: gbn_base_def)
  ultimately show ?case by simp
qed (simp add: gbn_base_def)

lemma tx_advance_gbn:
  assumes W: "0 < W" and M: "1 \<le> M" and rel: "tx_rel W M base nxt s" and out: "base < nxt"
    and ack: "acks_from W lo hi As sock" and lo: "base - W \<le> lo" and hi: "hi \<le> nxt"
  shows "tx_advance sock W s (((base + 1) mod (W + 1)) * M) = Inl Starved \<or>
         (\<exists>p pre As' s' sock'. tx_advance sock W s (((base + 1) mod (W + 1)) * M) = Inr (s', sock') \<and>
            polls sock = p # polls sock' \<and> (if 0 < p then length pre = 1 else pre = []) \<and>
            As = pre @ As' \<and> tx_rel W M (gbn_base base pre) nxt s' \<and>
            acks_from W lo hi As' sock' \<and> trace sock' = trace sock \<and> tmsg s' = tmsg s \<and>
            retrans s' = retrans s)"
proof -
  let ?R = "W * 2 + 1" and ?i = "((base + 1) mod (W + 1)) * M"
  have rd: "buf_read (tbuf s) ?i = Inr (base mod ?R)" using slot_read [OF W M rel _ out] by simp
  have la: "lastAckRec s = base mod (W + 1)" and b0: "0 \<le> base" using rel by (simp_all add: tx_rel_def)
  show ?thesis
  proof (cases "polls sock")
    case Nil
    then show ?thesis using rd by (simp add: tx_advance_def ackAdvance_def pollRecvFrom_def)
  next
    case (Cons p ps)
    show ?thesis
    proof (cases "0 < p")
      case False
      have "(lastAckRec s + 0) smod (W + 1) = lastAckRec s" using la W b0 by simp
      then have "tx_advance sock W s ?i = Inr (s, sock\<lparr>polls := ps\<rparr>)"
        using rd ackAdvance_no_data [OF Cons, of "base mod ?R" W] False by (simp add: tx_advance_def)
      then show ?thesis using rel ack Cons False
        by (intro disjI2 exI [of _ p] exI [of _ "[]"] exI [of _ As]) simp
    next
      case True
      show ?thesis
      proof (cases As)
        case Nil
        then show ?thesis using rd Cons True ack
          by (simp add: tx_advance_def ackAdvance_def pollRecvFrom_def recvFrom_def acks_from_def)
      next
        case (Cons A As')
        have ib: "inbox sock = A mod ?R # map (\<lambda>A. A mod ?R) As'" and A: "lo \<le> A" "A \<le> hi"
          and As': "list_all (\<lambda>A. lo \<le> A \<and> A \<le> hi) As'"
          using ack Cons by (simp_all add: acks_from_def)
        note c = tx_advance_credit [OF W M rel out \<open>polls sock = p # ps\<close> True ib]
        have "base - W \<le> A" "A \<le> nxt" using A lo hi by simp_all
        moreover have "base + ack_credit A base = gbn_base base [A]" by (simp add: ack_credit_def)
        ultimately show ?thesis using c As' A Cons \<open>polls sock = p # ps\<close> True
          by (intro disjI2 exI [of _ p] exI [of _ "[A]"] exI [of _ As']) (auto simp: acks_from_def)
      qed
    qed
  qed
qed

lemma tx_wait_gbn:
  "0 < W \<Longrightarrow> 1 \<le> M \<Longrightarrow> tx_rel W M base nxt s \<Longrightarrow> acks_from W lo hi As sock \<Longrightarrow>
   base - W \<le> lo \<Longrightarrow> hi - W \<le> lo \<Longrightarrow> hi \<le> nxt \<Longrightarrow>
   tx_wait sock M W s = Inl Starved \<or> tx_wait sock M W s = Inl (OutOfBounds ((W + 1) * M)) \<or>
   (\<exists>qs pre As' s' sock'. tx_wait sock M W s = Inr (s', sock') \<and> polls sock = qs @ polls sock' \<and>
      As = pre @ As' \<and> tx_rel W M (gbn_base base pre) nxt s' \<and> nxt - gbn_base base pre < W \<and>
      acks_from W lo hi As' sock' \<and> resends_only s sock s' sock' \<and> tmsg s' = tmsg s)"
proof (induction sock M W s arbitrary: base As rule: tx_wait.induct)
  case (1 sock M W s)
  note W = "1.prems"(1) and M = "1.prems"(2) and rel = "1.prems"(3) and ack = "1.prems"(4)
  have b: "base \<le> nxt" "nxt \<le> base + W" using rel by (simp_all add: tx_rel_def)
  show ?case
  proof (cases "nxt - base = W")
    case False
    then have "\<not> lastAckRec s = (lastFrameSent s + 1) smod (W + 1)" using tx_window_full [OF W rel] by simp
    then have "tx_wait sock M W s = Inr (s, sock)" by (simp add: tx_wait.simps [of sock M W s])
    then show ?thesis using rel ack b False
      by (intro disjI2 exI [of _ "[]"] exI [of _ "[]"] exI [of _ As]) auto
  next
    case True
    then have full: "lastAckRec s = (lastFrameSent s + 1) smod (W + 1)" using tx_window_full [OF W rel] by simp
    have out: "base < nxt" using True W by simp
    consider (st) "tx_timeout sock M W s = Inl Starved"
      | (ok) s1 sock1 where "tx_timeout sock M W s = Inr (s1, sock1)" "tx_rel W M base nxt s1"
          "inbox sock1 = inbox sock" "resends_only s sock s1 sock1" "tmsg s1 = tmsg s"
      using tx_timeout_gbn [OF W M rel, of sock] by blast
    then show ?thesis
    proof cases
      case st
      then show ?thesis using full by (simp add: tx_wait.simps [of sock M W s])
    next
      case ok
      have ack1: "acks_from W lo hi As sock1" using acks_from_frame [OF ok(3)] ack by simp
      have pl1: "polls sock1 = polls sock" by (rule tx_timeout_polls [OF ok(1)])
      have la1: "lastAckRec s1 = base mod (W + 1)" using ok(2) by (simp add: tx_rel_def)
      show ?thesis
      proof (cases "base mod (W + 1) = W")
        case True
        have "length (tbuf s1) = nat ((W + 1) * M)" using ok(2) by (simp add: tx_rel_def)
        then have "tx_advance sock1 W s1 ((lastAckRec s1 + 1) * M) = Inl (OutOfBounds ((W + 1) * M))"
          using la1 True W M by (simp add: tx_advance_def buf_read_def c_read_def)
        then show ?thesis using full ok(1) by (simp add: tx_wait.simps [of sock M W s])
      next
        case False
        have "base mod (W + 1) < W" using False pos_mod_bound [of "W + 1" base] W by simp
        then have "base mod (W + 1) + 1 = (base + 1) mod (W + 1)"
          using succ_slot [of W base] W pos_mod_sign [of "W + 1" base] by simp
        then have idx: "(lastAckRec s1 + 1) * M = ((base + 1) mod (W + 1)) * M" using la1 by simp
        consider (st2) "tx_advance sock1 W s1 ((lastAckRec s1 + 1) * M) = Inl Starved"
          | (ok2) p pre1 As2 s2 sock2 where "tx_advance sock1 W s1 ((lastAckRec s1 + 1) * M) = Inr (s2, sock2)"
              "polls sock1 = p # polls sock2" "As = pre1 @ As2" "tx_rel W M (gbn_base base pre1) nxt s2"
              "acks_from W lo hi As2 sock2" "trace sock2 = trace sock1" "tmsg s2 = tmsg s1" "retrans s2 = retrans s1"
          using tx_advance_gbn [OF W M ok(2) out ack1 "1.prems"(5,7)] unfolding idx by blast
        then show ?thesis
        proof cases
          case st2
          then show ?thesis using full ok(1) by (simp add: tx_wait.simps [of sock M W s])
        next
          case ok2
          let ?b2 = "gbn_base base pre1"
          have unf: "tx_wait sock M W s = tx_wait sock2 M W s2"
            using full ok(1) ok2(1) by (simp add: tx_wait.simps [of sock M W s])
          have "list_all (\<lambda>A. A \<le> hi) pre1" using ack ok2(3) by (simp add: acks_from_def list_all_iff)
          then have "?b2 \<le> max base hi" by (rule gbn_base_le)
          then have lo2: "?b2 - W \<le> lo" using "1.prems"(5,6) by (simp add: max_def split: if_splits)
          have r12: "resends_only s sock s2 sock2"
            using resends_only_trans [OF ok(4) resends_only_same [OF ok2(6,8)]] .
          have IH: "tx_wait sock2 M W s2 = Inl Starved \<or> tx_wait sock2 M W s2 = Inl (OutOfBounds ((W + 1) * M)) \<or>
              (\<exists>qs pre As' s' sock'. tx_wait sock2 M W s2 = Inr (s', sock') \<and> polls sock2 = qs @ polls sock' \<and>
                 As2 = pre @ As' \<and> tx_rel W M (gbn_base ?b2 pre) nxt s' \<and> nxt - gbn_base ?b2 pre < W \<and>
                 acks_from W lo hi As' sock' \<and> resends_only s2 sock2 s' sock' \<and> tmsg s' = tmsg s2)"
            by (rule "1.IH" [OF full ok(1) refl ok2(1) refl W M ok2(4) ok2(5) lo2 "1.prems"(6,7)])
          show ?thesis
            using IH
          proof (elim disjE exE conjE)
            fix qs pre As' s' sock'
            assume "tx_wait sock2 M W s2 = Inr (s', sock')" "polls sock2 = qs @ polls sock'" "As2 = pre @ As'"
              "tx_rel W M (gbn_base ?b2 pre) nxt s'" "nxt - gbn_base ?b2 pre < W"
              "acks_from W lo hi As' sock'" "resends_only s2 sock2 s' sock'" "tmsg s' = tmsg s2"
            then show ?thesis using ok2(2,3,7) ok(5) pl1 resends_only_trans [OF r12] unf
              by (intro disjI2 exI [of _ "p # qs"] exI [of _ "pre1 @ pre"] exI [of _ As'] exI [of _ s']
                  exI [of _ sock']) auto
          qed (simp_all add: unf)
        qed
      qed
    qed
  qed
qed

lemma tx_rel_send:
  assumes W: "0 < W" and M: "2 \<le> M" and rel: "tx_rel W M base nxt s" and room: "nxt - base < W"
    and la: "lastAckRec s' = lastAckRec s" and lf: "lastFrameSent s' = (nxt + 1) mod (W + 1)"
    and tb: "tbuf s' = (tbuf s)[nat (((nxt + 1) mod (W + 1)) * M) := Some (nxt mod (W * 2 + 1)),
                               nat (((nxt + 1) mod (W + 1)) * M + 1) := Some x]"
  shows "tx_rel W M base (nxt + 1) s'"
proof -
  let ?l = "(nxt + 1) mod (W + 1)"
  have b: "0 \<le> base" "base \<le> nxt" "nxt \<le> base + W" and len: "length (tbuf s) = nat ((W + 1) * M)"
    and old: "\<And>k. base \<le> k \<Longrightarrow> k < nxt \<Longrightarrow> tbuf s ! nat (((k + 1) mod (W + 1)) * M) = Some (k mod (W * 2 + 1))"
    using rel by (simp_all add: tx_rel_def)
  have l: "0 \<le> ?l" "?l \<le> W" using W pos_mod_bound [of "W + 1" "nxt + 1"] by simp_all
  have lt: "nat (?l * M) < length (tbuf s)" using slot_index_bounds [OF l M] len by linarith
  have slot: "tbuf s' ! nat (((k + 1) mod (W + 1)) * M) = Some (k mod (W * 2 + 1))"
    if k: "base \<le> k" "k < nxt + 1" for k
  proof (cases "k = nxt")
    case True
    then show ?thesis using tb lt slot_index_ne(1) [OF M l(1) l(1)] by (simp add: nth_list_update)
  next
    case False
    let ?j = "(k + 1) mod (W + 1)"
    have j: "0 \<le> ?j" using W by simp
    have "?j \<noteq> ?l" using mod_window_inj [of "base + 1" "k + 1" "W + 1" "nxt + 1"] k False room b by auto
    then have "nat (?j * M) \<noteq> nat (?l * M)" using slot_index_ne(2) [OF M j l(1)] by simp
    then show ?thesis using tb old [of k] k False slot_index_ne(1) [OF M j l(1)] by (simp add: nth_list_update)
  qed
  show ?thesis using b room la lf tb len rel slot unfolding tx_rel_def by auto
qed

lemma tx_body_gbn:
  assumes W: "0 < W" and M: "2 \<le> M" and rel: "tx_rel W M base nxt s" and msg: "2 \<le> length (tmsg s)"
    and ack: "acks_from W (nxt - W) nxt As sock"
  shows "tx_body sock M W s nxt = Inl Starved \<or>
         tx_body sock M W s nxt = Inl (OutOfBounds ((W + 1) * M)) \<or>
         (\<exists>s' sock' qs p pre mid As'. tx_body sock M W s nxt = Inr (s', sock') \<and>
            polls sock = qs @ p # polls sock' \<and> (if 0 < p then length mid = 1 else mid = []) \<and>
            As = pre @ mid @ As' \<and> acks_from W (nxt - W) nxt As' sock' \<and>
            nxt - gbn_base base pre < W \<and> tx_rel W M (gbn_base base (pre @ mid)) (nxt + 1) s' \<and>
            length (tmsg s') = length (tmsg s) \<and>
            (\<exists>vs. trace sock' = trace sock @ map SendFromAddr vs @ [SendTo (nxt mod (W * 2 + 1))] \<and>
                  retrans s' = retrans s + int (length vs)))"
proof (cases "clock sock")
  case Nil
  then show ?thesis by (simp add: tx_body_def timer_start_def)
next
  case (Cons t ts)
  let ?R = "W * 2 + 1" and ?sock1 = "sock\<lparr>clock := ts\<rparr>" and ?s1 = "s\<lparr>tstart := t\<rparr>"
  have M1: "1 \<le> M" using M by simp
  have ts: "timer_start sock = Inr (t, ?sock1)" using Cons by (simp add: timer_start_def)
  have b: "0 \<le> base" "base \<le> nxt" using rel by (simp_all add: tx_rel_def)
  have rel1: "tx_rel W M base nxt ?s1" using rel by (simp add: tx_rel_frame)
  have ack1: "acks_from W (nxt - W) nxt As ?sock1" using ack by simp
  consider (st) "tx_wait ?sock1 M W ?s1 = Inl Starved" | (oob) "tx_wait ?sock1 M W ?s1 = Inl (OutOfBounds ((W + 1) * M))"
    | (ok) qs pre As1 s2 sock2 where "tx_wait ?sock1 M W ?s1 = Inr (s2, sock2)" "polls sock = qs @ polls sock2"
        "As = pre @ As1" "tx_rel W M (gbn_base base pre) nxt s2" "nxt - gbn_base base pre < W"
        "acks_from W (nxt - W) nxt As1 sock2" "resends_only ?s1 ?sock1 s2 sock2" "tmsg s2 = tmsg s"
    using tx_wait_gbn [OF W M1 rel1 ack1] b by fastforce
  then show ?thesis
  proof cases
    case st
    then show ?thesis using ts by (simp add: tx_body_def)
  next
    case oob
    then show ?thesis using ts by (simp add: tx_body_def)
  next
    case ok
    let ?b1 = "gbn_base base pre"
    let ?m = "(tmsg s)[0 := nxt mod ?R]" and ?l = "(nxt + 1) mod (W + 1)"
    have m0len: "0 < int (length (tmsg s))" using msg by linarith
    have cw: "c_write (tmsg s2) 0 (nxt smod ?R) = Inr ?m" using ok(8) m0len b W by simp
    have lf2: "lastFrameSent s2 = nxt mod (W + 1)" and la2: "lastAckRec s2 = ?b1 mod (W + 1)"
      and len2: "length (tbuf s2) = nat ((W + 1) * M)" and b1: "0 \<le> ?b1" "?b1 \<le> nxt"
      using ok(4) by (simp_all add: tx_rel_def)
    let ?s3 = "s2\<lparr>tmsg := ?m, lastFrameSent := (lastFrameSent s2 + 1) smod (W + 1)\<rparr>"
    have lfs3: "lastFrameSent ?s3 = ?l" using lf2 succ_slot [of W nxt] W by simp
    have l: "0 \<le> ?l" "?l \<le> W" using W pos_mod_bound [of "W + 1" "nxt + 1"] by simp_all
    note bd = slot_index_bounds [OF l M]
    have "0 < length (tmsg s)" using msg by linarith
    then have m0: "?m ! 0 = nxt mod ?R" by simp
    let ?s4 = "?s3\<lparr>tbuf := (tbuf s2)[nat (?l * M) := Some (nxt mod ?R), nat (?l * M + 1) := Some (?m ! 1)]\<rparr>"
    have cp: "tx_copy M ?s3 0 = Inr ?s4" using tx_copy_words [of ?s3 M] lfs3 bd len2 msg m0 W M by simp
    have rel4: "tx_rel W M ?b1 (nxt + 1) ?s4" by (rule tx_rel_send [OF W M ok(4,5)]) (use lfs3 in simp_all)
    have idx: "(lastAckRec s2 + 1) smod (W + 1) = (?b1 + 1) mod (W + 1)"
      using la2 succ_slot [of W ?b1] W by simp
    let ?sock3 = "sendTo (?m ! 0) sock2"
    have body: "tx_body sock M W s nxt = tx_advance ?sock3 W ?s4 (((?b1 + 1) mod (W + 1)) * M)"
      using ts ok(1) cw cp idx by (simp add: tx_body_def Let_def)
    have ack3: "acks_from W (nxt - W) nxt As1 ?sock3" using ok(6) by (simp add: sendTo_def)
    have "?b1 - W \<le> nxt - W" "nxt \<le> nxt + 1" using b1 by simp_all
    note adv = tx_advance_gbn [OF W M1 rel4 _ ack3 this]
    show ?thesis
    proof (cases "tx_body sock M W s nxt")
      case (Inl f)
      then show ?thesis using adv b1 body by auto
    next
      case (Inr r)
      then obtain s' sock' where r: "tx_body sock M W s nxt = Inr (s', sock')" by (cases r) auto
      obtain p mid As' where a: "polls ?sock3 = p # polls sock'" "if 0 < p then length mid = 1 else mid = []"
        "As1 = mid @ As'" "tx_rel W M (gbn_base ?b1 mid) (nxt + 1) s'" "acks_from W (nxt - W) nxt As' sock'"
        "tmsg s' = ?m"
        using adv b1 body r by auto
      have pl: "polls sock = qs @ p # polls sock'" using a(1) ok(2) by (simp add: sendTo_def)
      have "nxt smod ?R = nxt mod ?R" using b W by simp
      then show ?thesis using r a pl ok(3,5) tx_body_effect [OF r]
        by (intro disjI2 exI [of _ s'] exI [of _ sock'] exI [of _ qs] exI [of _ p] exI [of _ pre]
            exI [of _ mid] exI [of _ As']) auto
    qed
  qed
qed


lemma tx_init_rel:
  "0 \<le> W \<Longrightarrow> tx_rel W M 0 0 (tx_init M message W) \<and> length (tmsg (tx_init M message W)) = length message"
  by (auto simp: tx_rel_def tx_init_def)

lemma tx_base_rel:
  "0 < W \<Longrightarrow> tx_rel W M base nxt s \<Longrightarrow> tx_base W nxt s = base"
  using outstanding_count [of W M base nxt s] by (simp add: tx_base_def)

lemma tx_gbn_reach_inv:
  assumes W: "0 < W" and M: "2 \<le> M" and msg: "2 \<le> length message"
    and r: "tx_gbn_reach W M message nxt s"
  shows "\<exists>base. tx_rel W M base nxt s \<and> length (tmsg s) = length message"
  using r
proof (induction rule: tx_gbn_reach.induct)
  case init
  then show ?case using tx_init_rel [of W M message] W by auto
next
  case (step nxt s As sock s' sock')
  then obtain base where rel: "tx_rel W M base nxt s" and len: "length (tmsg s) = length message"
    by blast
  have "2 \<le> length (tmsg s)" using len msg by simp
  then show ?case using tx_body_gbn [OF W M rel _ step.hyps(2)] step.hyps(3) len by auto
qed

lemma tx_gbn_run_inv:
  assumes W: "0 < W" and M: "2 \<le> M" and msg: "2 \<le> length message"
    and r: "tx_gbn_run W M message base nxt s"
  shows "tx_rel W M base nxt s \<and> length (tmsg s) = length message"
  using r
proof (induction rule: tx_gbn_run.induct)
  case init
  then show ?case using tx_init_rel [of W M message] W by auto
next
  case (step base nxt s pre As' sock s' sock')
  then have rel: "tx_rel W M base nxt s" and len: "length (tmsg s) = length message" by simp_all
  have "2 \<le> length (tmsg s)" using len msg by simp
  then obtain pre0 mid As0 where e: "pre @ As' = (pre0 @ mid) @ As0" "acks_from W (nxt - W) nxt As0 sock'"
    "tx_rel W M (gbn_base base (pre0 @ mid)) (nxt + 1) s'" "length (tmsg s') = length (tmsg s)"
    using tx_body_gbn [OF W M rel _ step.hyps(2)] step.hyps(3) by auto
  have "map (\<lambda>A. A mod (W * 2 + 1)) As0 = map (\<lambda>A. A mod (W * 2 + 1)) As'"
    using e(2) step.hyps(4) by (simp add: acks_from_def)
  then have "length As' = length As0" by (metis length_map)
  then have "pre = pre0 @ mid" using e(1) by (metis append_eq_append_conv)
  then show ?case using e(3,4) len by simp
qed

lemma tx_gbn_run_example:
  "tx_gbn_run 1 2 [7, 8] 0 1 \<lparr>retrans = 0, lastAckRec = 0, lastFrameSent = 1,
      tbuf = [None, None, Some 0, Some 8], tmsg = [0, 8], tstart = 0\<rparr>"
proof -
  have b: "tx_body \<lparr>polls = [0], inbox = [], clock = [0], trace = []\<rparr> 2 1 (tx_init 2 [7, 8] 1) 0 =
      Inr (\<lparr>retrans = 0, lastAckRec = 0, lastFrameSent = 1,
         tbuf = [None, None, Some 0, Some 8], tmsg = [0, 8], tstart = 0\<rparr>,
        \<lparr>polls = [], inbox = [], clock = [], trace = [SendTo 0]\<rparr>)" by code_simp
  have a: "acks_from 1 (0 - 1) 0 ([] @ []) \<lparr>polls = [0], inbox = [], clock = [0], trace = []\<rparr>"
    by (simp add: acks_from_def)
  have "tx_gbn_run 1 2 [7, 8] (gbn_base 0 []) (0 + 1) \<lparr>retrans = 0, lastAckRec = 0, lastFrameSent = 1,
      tbuf = [None, None, Some 0, Some 8], tmsg = [0, 8], tstart = 0\<rparr>"
    by (rule tx_gbn_run.step [OF tx_gbn_run.init a b]) simp
  then show ?thesis by simp
qed

lemma tx_wait_polls_le:
  "tx_wait sock M W s = Inr (s', sock') \<Longrightarrow> length (polls sock') \<le> length (polls sock)"
proof (induction sock M W s rule: tx_wait.induct)
  case (1 sock M W s)
  show ?case
  proof (cases "lastAckRec s = (lastFrameSent s + 1) smod (W + 1)")
    case False
    then show ?thesis using "1.prems" by (simp add: tx_wait.simps [of sock M W s])
  next
    case True
    then obtain s1 sock1 s2 sock2 where t: "tx_timeout sock M W s = Inr (s1, sock1)"
      and a: "tx_advance sock1 W s1 ((lastAckRec s1 + 1) * M) = Inr (s2, sock2)"
      and w: "tx_wait sock2 M W s2 = Inr (s', sock')"
      using "1.prems" by (auto simp: tx_wait.simps [of sock M W s] split: sum.splits)
    show ?thesis
      using "1.IH" [OF True t refl a refl w] tx_timeout_polls [OF t] tx_advance_polls [OF a] by simp
  qed
qed

lemma tx_wait_full_polls:
  assumes full: "lastAckRec s = (lastFrameSent s + 1) smod (W + 1)"
    and w: "tx_wait sock M W s = Inr (s', sock')"
  shows "length (polls sock') < length (polls sock)"
proof -
  obtain s1 sock1 s2 sock2 where t: "tx_timeout sock M W s = Inr (s1, sock1)"
    and a: "tx_advance sock1 W s1 ((lastAckRec s1 + 1) * M) = Inr (s2, sock2)"
    and w2: "tx_wait sock2 M W s2 = Inr (s', sock')"
    using full w by (auto simp: tx_wait.simps [of sock M W s] split: sum.splits)
  show ?thesis using tx_wait_polls_le [OF w2] tx_timeout_polls [OF t] tx_advance_polls [OF a] by simp
qed

section \<open>One pass of the for loop refines a Go-Back-N send\<close>

text \<open>
  C4 (refinement).  One pass of the for loop of \<^verbatim>\<open>clientSlidingWindow\<close> implements the
  abstract Go-Back-N send of frame \<open>nxt\<close>.  Start from a state related to the abstract
  sender whose outstanding frames are \<open>base .. nxt - 1\<close>, with every acknowledgment on the
  wire for one of the frames \<open>nxt - windowSize .. nxt\<close>.  The pass then either runs out
  of input, or ends in the out-of-bounds read of line 135, or returns.  When it returns,
  it has consumed the polls \<open>qs\<close> of the full-window loop (lines 121-137) with the
  acknowledgments \<open>pre\<close>.  It has also consumed the one poll \<open>p\<close> of line 146 with
  \<open>mid\<close>: one acknowledgment if \<open>p\<close> reports data, none otherwise.  It sent frame
  \<open>nxt\<close> only once the abstract window after \<open>pre\<close> had room, so that fewer than
  \<open>windowSize\<close> frames were outstanding.  The state it returns is related to the
  abstract sender that has sent \<open>nxt + 1\<close> frames and whose trailing edge is the
  cumulative effect of \<open>pre @ mid\<close>.  The trace is the retransmissions it counted,
  followed by frame \<open>nxt\<close> under its sequence number.
\<close>

theorem tx_body_refines:
  assumes W: "0 < W" and M: "2 \<le> M" and rel: "tx_rel W M base nxt s" and msg: "2 \<le> length (tmsg s)"
    and ack: "acks_from W (nxt - W) nxt As sock"
  shows "tx_body sock M W s nxt = Inl Starved \<or>
         tx_body sock M W s nxt = Inl (OutOfBounds ((W + 1) * M)) \<or>
         (\<exists>s' sock' qs p pre mid As'. tx_body sock M W s nxt = Inr (s', sock') \<and>
            polls sock = qs @ p # polls sock' \<and> (if 0 < p then length mid = 1 else mid = []) \<and>
            As = pre @ mid @ As' \<and> acks_from W (nxt - W) nxt As' sock' \<and>
            nxt - gbn_base base pre < W \<and> tx_rel W M (gbn_base base (pre @ mid)) (nxt + 1) s' \<and>
            length (tmsg s') = length (tmsg s) \<and>
            (\<exists>vs. trace sock' = trace sock @ map SendFromAddr vs @ [SendTo (nxt mod (W * 2 + 1))] \<and>
                  retrans s' = retrans s + int (length vs)))"
  using tx_body_gbn [OF W M rel msg ack] .

theorem tx_body_refines_witness:
  "tx_rel 1 2 0 1 \<lparr>retrans = 0, lastAckRec = 0, lastFrameSent = 1,
      tbuf = [None, None, Some 0, Some 8], tmsg = [0, 8], tstart = 0\<rparr> \<and>
   acks_from 1 (1 - 1) 1 [1] \<lparr>polls = [1, 0], inbox = [1], clock = [0, 2000, 2000], trace = []\<rparr> \<and>
   tx_body \<lparr>polls = [1, 0], inbox = [1], clock = [0, 2000, 2000], trace = []\<rparr> 2 1
      \<lparr>retrans = 0, lastAckRec = 0, lastFrameSent = 1,
       tbuf = [None, None, Some 0, Some 8], tmsg = [0, 8], tstart = 0\<rparr> 1 =
     Inr (\<lparr>retrans = 1, lastAckRec = 1, lastFrameSent = 0,
            tbuf = [Some 1, Some 8, Some 0, Some 8], tmsg = [1, 8], tstart = 2000\<rparr>,
          \<lparr>polls = [], inbox = [], clock = [], trace = [SendFromAddr 0, SendTo 1]\<rparr>) \<and>
   (\<exists>qs p pre mid As'. [1, 0::int] = qs @ [p] \<and> (if 0 < p then length mid = 1 else mid = []) \<and>
      [1] = pre @ mid @ As' \<and> 1 - gbn_base 0 pre < 1 \<and>
      tx_rel 1 2 (gbn_base 0 (pre @ mid)) (1 + 1) \<lparr>retrans = 1, lastAckRec = 1, lastFrameSent = 0,
            tbuf = [Some 1, Some 8, Some 0, Some 8], tmsg = [1, 8], tstart = 2000\<rparr>)"
proof -
  let ?s = "\<lparr>retrans = 0, lastAckRec = 0, lastFrameSent = 1,
      tbuf = [None, None, Some 0, Some 8], tmsg = [0, 8::int], tstart = 0\<rparr>"
  and ?sock = "\<lparr>polls = [1, 0], inbox = [1], clock = [0, 2000, 2000], trace = []\<rparr>"
  have rel: "tx_rel 1 2 0 1 ?s"
  proof (unfold tx_rel_def, intro conjI allI impI)
    fix k :: int assume "0 \<le> k \<and> k < 1"
    then have "k = 0" by arith
    then show "tbuf ?s ! nat (((k + 1) mod (1 + 1)) * 2) = Some (k mod (1 * 2 + 1))" by simp
  qed simp_all
  have ack: "acks_from 1 (1 - 1) 1 [1] ?sock" by (simp add: acks_from_def)
  have run: "tx_body ?sock 2 1 ?s 1 =
     Inr (\<lparr>retrans = 1, lastAckRec = 1, lastFrameSent = 0,
            tbuf = [Some 1, Some 8, Some 0, Some 8], tmsg = [1, 8], tstart = 2000\<rparr>,
          \<lparr>polls = [], inbox = [], clock = [], trace = [SendFromAddr 0, SendTo 1]\<rparr>)"
    by code_simp
  have c: "0 < (1::int)" "2 \<le> (2::int)" "2 \<le> length (tmsg ?s)" by simp_all
  have "\<exists>s' sock' qs p pre mid As'. tx_body ?sock 2 1 ?s 1 = Inr (s', sock') \<and>
            polls ?sock = qs @ p # polls sock' \<and> (if 0 < p then length mid = 1 else mid = []) \<and>
            [1] = pre @ mid @ As' \<and> acks_from 1 (1 - 1) 1 As' sock' \<and>
            1 - gbn_base 0 pre < 1 \<and> tx_rel 1 2 (gbn_base 0 (pre @ mid)) (1 + 1) s' \<and>
            length (tmsg s') = length (tmsg ?s) \<and>
            (\<exists>vs. trace sock' = trace ?sock @ map SendFromAddr vs @ [SendTo (1 mod (1 * 2 + 1))] \<and>
                  retrans s' = retrans ?s + int (length vs))"
    using tx_body_refines [OF c(1,2) rel c(3) ack] run by (metis sum.distinct(1))
  then obtain s' sock' qs p pre mid As' where h: "tx_body ?sock 2 1 ?s 1 = Inr (s', sock')"
    "polls ?sock = qs @ p # polls sock'" "if 0 < p then length mid = 1 else mid = []"
    "[1] = pre @ mid @ As'" "1 - gbn_base 0 pre < 1" "tx_rel 1 2 (gbn_base 0 (pre @ mid)) (1 + 1) s'"
    by blast
  have e: "s' = \<lparr>retrans = 1, lastAckRec = 1, lastFrameSent = 0,
            tbuf = [Some 1, Some 8, Some 0, Some 8], tmsg = [1, 8], tstart = 2000\<rparr>" "polls sock' = []"
    using h(1) run by auto
  have "[1, 0] = qs @ [p]" using h(2) e(2) by simp
  then show ?thesis using rel ack run h(3-5) h(6) [unfolded e(1)] by blast
qed

lemma tx_gbn_reach_example:
  "tx_gbn_reach 1 3 [7, 8] 1 \<lparr>retrans = 0, lastAckRec = 0, lastFrameSent = 1,
      tbuf = [None, None, None, Some 0, Some 8, None], tmsg = [0, 8], tstart = 0\<rparr>"
proof -
  have b1: "tx_body \<lparr>polls = [0], inbox = [], clock = [0], trace = []\<rparr> 3 1 (tx_init 3 [7, 8] 1) 0 =
      Inr (\<lparr>retrans = 0, lastAckRec = 0, lastFrameSent = 1,
      tbuf = [None, None, None, Some 0, Some 8, None], tmsg = [0, 8], tstart = 0\<rparr>,
        \<lparr>polls = [], inbox = [], clock = [], trace = [SendTo 0]\<rparr>)" by code_simp
  have a1: "acks_from 1 (0 - 1) 0 [] \<lparr>polls = [0], inbox = [], clock = [0], trace = []\<rparr>"
    by (simp add: acks_from_def)
  have "tx_gbn_reach 1 3 [7, 8] (0 + 1) \<lparr>retrans = 0, lastAckRec = 0, lastFrameSent = 1,
      tbuf = [None, None, None, Some 0, Some 8, None], tmsg = [0, 8], tstart = 0\<rparr>"
    by (rule tx_gbn_reach.step [OF tx_gbn_reach.init a1 b1])
  then show ?thesis by simp
qed

section \<open>Reachable sender states refine Go-Back-N states\<close>

text \<open>
  C5 (invariant).  Along every run of the for loop of \<^verbatim>\<open>clientSlidingWindow\<close> in
  which the acknowledgments on the wire are plausible, the sender state is related by
  \<open>tx_rel\<close> to the abstract Go-Back-N sender whose trailing edge \<open>base\<close> is the
  cumulative effect of the acknowledgments the code consumed.  Relative to that edge at
  most \<open>windowSize\<close> frames are outstanding, and the buffer slot of each holds its
  sequence number.  The code's own count of outstanding frames (\<open>tx_base\<close>, lines
  125-126) recovers the edge, and the message keeps its size.
\<close>

theorem tx_gbn_run_rel:
  assumes W: "0 < W" and M: "2 \<le> M" and msg: "2 \<le> length message"
    and r: "tx_gbn_run W M message base nxt s"
  shows "tx_rel W M base nxt s \<and> tx_base W nxt s = base \<and> length (tmsg s) = length message"
  using tx_gbn_run_inv [OF W M msg r] tx_base_rel [OF W] by blast

theorem tx_gbn_run_rel_witness:
  "tx_gbn_run 1 2 [7, 8] 1 2 \<lparr>retrans = 1, lastAckRec = 1, lastFrameSent = 0,
      tbuf = [Some 1, Some 8, Some 0, Some 8], tmsg = [1, 8], tstart = 2000\<rparr> \<and>
   tx_rel 1 2 1 2 \<lparr>retrans = 1, lastAckRec = 1, lastFrameSent = 0,
      tbuf = [Some 1, Some 8, Some 0, Some 8], tmsg = [1, 8], tstart = 2000\<rparr> \<and>
   tx_base 1 2 \<lparr>retrans = 1, lastAckRec = 1, lastFrameSent = 0,
      tbuf = [Some 1, Some 8, Some 0, Some 8], tmsg = [1, 8::int], tstart = 2000\<rparr> = 1 \<and>
   length (tmsg \<lparr>retrans = 1, lastAckRec = 1, lastFrameSent = 0,
      tbuf = [Some 1, Some 8, Some 0, Some 8], tmsg = [1, 8::int], tstart = 2000\<rparr>) = length [7, 8::int]"
proof -
  let ?s1 = "\<lparr>retrans = 0, lastAckRec = 0, lastFrameSent = 1,
      tbuf = [None, None, Some 0, Some 8], tmsg = [0, 8::int], tstart = 0\<rparr>"
  and ?s2 = "\<lparr>retrans = 1, lastAckRec = 1, lastFrameSent = 0,
      tbuf = [Some 1, Some 8, Some 0, Some 8], tmsg = [1, 8::int], tstart = 2000\<rparr>"
  and ?sock = "\<lparr>polls = [1, 0], inbox = [1], clock = [0, 2000, 2000], trace = []\<rparr>"
  have b: "tx_body ?sock 2 1 ?s1 1 =
     Inr (?s2, \<lparr>polls = [], inbox = [], clock = [], trace = [SendFromAddr 0, SendTo 1]\<rparr>)"
    by code_simp
  have a: "acks_from 1 (1 - 1) 1 ([1] @ []) ?sock" by (simp add: acks_from_def)
  have "tx_gbn_run 1 2 [7, 8] (gbn_base 0 [1]) (1 + 1) ?s2"
    by (rule tx_gbn_run.step [OF tx_gbn_run_example a b]) simp
  then have r: "tx_gbn_run 1 2 [7, 8] 1 2 ?s2" by simp
  show ?thesis using tx_gbn_run_rel [OF _ _ _ r] r by simp
qed

text \<open>
  C6 (safety).  From every state the sender reaches under plausible acknowledgments,
  the next pass of the for loop, with plausible acknowledgments again, never reads an
  unwritten buffer element and never accesses the buffer or the message out of bounds,
  except the read one past the end at line 135; the only other way it ends without
  returning is by running out of input.
\<close>

theorem tx_gbn_reach_safe:
  assumes W: "0 < W" and M: "2 \<le> M" and msg: "2 \<le> length message"
    and r: "tx_gbn_reach W M message nxt s" and ack: "acks_from W (nxt - W) nxt As sock"
    and f: "tx_body sock M W s nxt = Inl f"
  shows "f = Starved \<or> f = OutOfBounds ((W + 1) * M)"
proof -
  obtain base where rel: "tx_rel W M base nxt s" and len: "length (tmsg s) = length message"
    using tx_gbn_reach_inv [OF W M msg r] by blast
  have "2 \<le> length (tmsg s)" using len msg by simp
  then show ?thesis using tx_body_gbn [OF W M rel _ ack] f by auto
qed


theorem tx_gbn_reach_safe_witness:
  "tx_gbn_reach 1 3 [7, 8] 2 \<lparr>retrans = 0, lastAckRec = 1, lastFrameSent = 0,
      tbuf = [Some 1, Some 8, None, Some 0, Some 8, None], tmsg = [1, 8], tstart = 0\<rparr> \<and>
   acks_from 1 (2 - 1) 2 [] \<lparr>polls = [], inbox = [], clock = [0, 0], trace = []\<rparr> \<and>
   tx_body \<lparr>polls = [], inbox = [], clock = [0, 0], trace = []\<rparr> 3 1
     \<lparr>retrans = 0, lastAckRec = 1, lastFrameSent = 0,
      tbuf = [Some 1, Some 8, None, Some 0, Some 8, None], tmsg = [1, 8], tstart = 0\<rparr> 2 =
     Inl (OutOfBounds 6) \<and>
   (OutOfBounds 6 = Starved \<or> OutOfBounds 6 = OutOfBounds ((1 + 1) * 3))"
proof -
  let ?s1 = "\<lparr>retrans = 0, lastAckRec = 0, lastFrameSent = 1,
      tbuf = [None, None, None, Some 0, Some 8, None], tmsg = [0, 8::int], tstart = 0\<rparr>"
  and ?s2 = "\<lparr>retrans = 0, lastAckRec = 1, lastFrameSent = 0,
      tbuf = [Some 1, Some 8, None, Some 0, Some 8, None], tmsg = [1, 8::int], tstart = 0\<rparr>"
  and ?sock = "\<lparr>polls = [], inbox = [], clock = [0, 0], trace = []\<rparr>"
  have b2: "tx_body \<lparr>polls = [1, 0], inbox = [1], clock = [0, 0], trace = []\<rparr> 3 1 ?s1 1 =
      Inr (?s2, \<lparr>polls = [], inbox = [], clock = [], trace = [SendTo 1]\<rparr>)" by code_simp
  have a2: "acks_from 1 (1 - 1) 1 [1] \<lparr>polls = [1, 0], inbox = [1], clock = [0, 0], trace = []\<rparr>"
    and a3: "acks_from 1 (2 - 1) 2 [] ?sock" by (simp_all add: acks_from_def)
  have r1: "tx_gbn_reach 1 3 [7, 8] 1 ?s1" by (rule tx_gbn_reach_example)
  have r2: "tx_gbn_reach 1 3 [7, 8] (1 + 1) ?s2" by (rule tx_gbn_reach.step [OF r1 a2 b2])
  then have r: "tx_gbn_reach 1 3 [7, 8] 2 ?s2" by simp
  have f: "tx_body ?sock 3 1 ?s2 2 = Inl (OutOfBounds 6)" by code_simp
  show ?thesis using tx_gbn_reach_safe [OF _ _ _ r a3 f] r a3 f by simp
qed

text \<open>
  C7 (equivalence).  On every state of such a run, the full-window loop of lines 121-137
  leaves the state and the socket untouched exactly when the abstract window has room,
  that is, when fewer than \<open>windowSize\<close> frames are outstanding after the
  acknowledgments consumed so far.  When the window is full, the loop always polls
  before the frame can be sent.
\<close>

theorem tx_gbn_run_wait:
  assumes W: "0 < W" and M: "2 \<le> M" and msg: "2 \<le> length message"
    and r: "tx_gbn_run W M message base nxt s"
  shows "tx_wait sock M W s = Inr (s, sock) \<longleftrightarrow> nxt - base < W"
proof -
  have rel: "tx_rel W M base nxt s" using tx_gbn_run_inv [OF W M msg r] by blast
  show ?thesis
  proof (cases "nxt - base < W")
    case True
    then have "\<not> lastAckRec s = (lastFrameSent s + 1) smod (W + 1)" using tx_window_full [OF W rel] by simp
    then show ?thesis using True by (simp add: tx_wait.simps [of sock M W s])
  next
    case False
    then have "lastAckRec s = (lastFrameSent s + 1) smod (W + 1)"
      using tx_window_full [OF W rel] rel by (simp add: tx_rel_def)
    then show ?thesis using tx_wait_full_polls [of s W sock M s sock] False by auto
  qed
qed

theorem tx_gbn_run_wait_witness:
  "tx_gbn_run 1 2 [7, 8] 0 1 \<lparr>retrans = 0, lastAckRec = 0, lastFrameSent = 1,
      tbuf = [None, None, Some 0, Some 8], tmsg = [0, 8], tstart = 0\<rparr> \<and>
   \<not> (1 - 0 < (1::int)) \<and>
   tx_wait \<lparr>polls = [1, 0], inbox = [1], clock = [0, 2000, 2000], trace = []\<rparr> 2 1
     \<lparr>retrans = 0, lastAckRec = 0, lastFrameSent = 1,
      tbuf = [None, None, Some 0, Some 8], tmsg = [0, 8], tstart = 0\<rparr> \<noteq>
     Inr (\<lparr>retrans = 0, lastAckRec = 0, lastFrameSent = 1,
      tbuf = [None, None, Some 0, Some 8], tmsg = [0, 8], tstart = 0\<rparr>,
      \<lparr>polls = [1, 0], inbox = [1], clock = [0, 2000, 2000], trace = []\<rparr>)"
  using tx_gbn_run_wait [OF _ _ _ tx_gbn_run_example, of "\<lparr>polls = [1, 0], inbox = [1],
    clock = [0, 2000, 2000], trace = []\<rparr>"] tx_gbn_run_example by simp

text \<open>
  C8 (roundtrip).  On every state the sender reaches under plausible acknowledgments,
  the buffer slot of each outstanding frame \<open>k\<close> holds a sequence number from which
  \<open>k\<close> is recovered: the trailing edge plus the distance of the stored number from it
  modulo \<open>2 windowSize + 1\<close>.  Storing a frame number as its residue loses nothing
  the sender needs.
\<close>

theorem tx_gbn_slot_roundtrip:
  assumes W: "0 < W" and M: "2 \<le> M" and msg: "2 \<le> length message"
    and r: "tx_gbn_reach W M message nxt s"
    and k: "tx_base W nxt s \<le> k" "k < nxt"
  shows "\<exists>v. buf_read (tbuf s) (((k + 1) mod (W + 1)) * M) = Inr v \<and>
           tx_base W nxt s + (v - tx_base W nxt s) mod (W * 2 + 1) = k"
proof -
  let ?R = "W * 2 + 1"
  obtain base where rel: "tx_rel W M base nxt s" using tx_gbn_reach_inv [OF W M msg r] by blast
  have b: "tx_base W nxt s = base" by (rule tx_base_rel [OF W rel])
  have M1: "1 \<le> M" using M by simp
  have rd: "buf_read (tbuf s) (((k + 1) mod (W + 1)) * M) = Inr (k mod ?R)"
    using slot_read [OF W M1 rel] k b by simp
  have lt: "k - base < ?R" using k b rel W by (simp add: tx_rel_def)
  have "(k mod ?R - base) mod ?R = (k - base) mod ?R" by (rule mod_diff_left_eq)
  also have "\<dots> = k - base" using lt k b by simp
  finally show ?thesis using rd b by simp
qed

theorem tx_gbn_slot_roundtrip_witness:
  "tx_gbn_reach 1 3 [7, 8] 1 \<lparr>retrans = 0, lastAckRec = 0, lastFrameSent = 1,
      tbuf = [None, None, None, Some 0, Some 8, None], tmsg = [0, 8], tstart = 0\<rparr> \<and>
   tx_base 1 1 \<lparr>retrans = 0, lastAckRec = 0, lastFrameSent = 1,
      tbuf = [None, None, None, Some 0, Some 8, None], tmsg = [0, 8::int], tstart = 0\<rparr> = 0 \<and>
   (\<exists>v. buf_read [None, None, None, Some 0, Some 8, None] (((0 + 1) mod (1 + 1)) * 3) = Inr v \<and>
      0 + (v - 0) mod (1 * 2 + 1) = (0::int))"
proof -
  let ?s1 = "\<lparr>retrans = 0, lastAckRec = 0, lastFrameSent = 1,
      tbuf = [None, None, None, Some 0, Some 8, None], tmsg = [0, 8::int], tstart = 0\<rparr>"
  have r: "tx_gbn_reach 1 3 [7, 8] 1 ?s1" by (rule tx_gbn_reach_example)
  have b: "tx_base 1 1 ?s1 = 0" by (simp add: tx_base_def)
  show ?thesis using r b tx_gbn_slot_roundtrip [OF _ _ _ r, of 0] by simp
qed

end
