(* ===== verification/Spec2Isabelle.thy ===== *)
theory Spec2Isabelle
  imports AckAdvance StopWait ReceiverState SenderRefinement
begin

text \<open>
  \<^bold>\<open>A verification development of \<^verbatim>\<open>src/udp.cpp\<close>\<close>, the ARQ (automatic
  repeat request) layer of the project: a stop-and-wait client and server and a
  sliding-window client and server exchanging sequence-numbered frames and
  acknowledgments over UDP.

  \<^medskip>\<^bold>\<open>Parts and theories.\<close>
  \<^item> \<open>Prelude\<close>: the fault type (\<open>Starved\<close>, \<open>OutOfBounds\<close>,
    \<open>Uninitialised\<close>) and \<open>'a result = fault + 'a\<close>, checked array access
    \<open>c_read\<close>/\<open>c_write\<close>, C's truncating \<open>%\<close> as \<open>smod\<close>, the 32-bit
    range of C's \<open>int\<close> (\<open>INT_MIN\<close>, \<open>INT_MAX\<close>, \<open>c_int\<close>), and the
    modular-window lemmas all window proofs share.
  \<^item> \<open>Transport\<close>: \<^verbatim>\<open>UdpSocket\<close> and \<^verbatim>\<open>Timer\<close>, whose code is not in the
    repository, modelled from the specification.  The world is a record \<open>env\<close>:
    scripts of poll answers, received first words and clock readings, and the trace
    of datagrams sent (\<open>SendTo\<close>, \<open>SendFromAddr\<close>, \<open>AckTo\<close>).  A call whose
    script is exhausted returns \<open>Starved\<close>; on a finite script every function is
    total, and a function that would wait forever ends in \<open>Starved\<close>.
  \<^item> \<open>StopWait\<close>: \<^verbatim>\<open>clientStopWait\<close> (\<open>sw_wait\<close>, \<open>sw_round\<close>,
    \<open>sw_client\<close>) and \<^verbatim>\<open>serverReliable\<close> (\<open>sr_round\<close>, \<open>sr_loop\<close>), one
    function per C loop.
  \<^item> \<open>AckAdvance\<close>: \<^verbatim>\<open>ackAdvance\<close> (\<open>ackAdvance_value\<close> for the
    arithmetic, \<open>ackAdvance\<close> with the poll and receive) and its contract
    \<open>ack_credit A S = max 0 (A - S)\<close>; \<open>ackAdvance_defined\<close> says that
    no intermediate value of lines 175-176 leaves C's \<open>int\<close> range.
  \<^item> \<open>WindowReceiver\<close>: \<^verbatim>\<open>serverEarlyRetrans\<close> as the record \<open>rx_state\<close>
    and \<open>rx_fold\<close> (the cumulative-ack loop), \<open>rx_offset\<close>, \<open>rx_step\<close>,
    \<open>rx_round\<close> (do-while), \<open>rx_loop\<close> (for); the abstract receiver
    \<open>rcv_spec\<close>/\<open>rcv_run\<close>/\<open>rcv_acks\<close> on unbounded frame numbers; the
    refinement relation \<open>rx_rel\<close> and the executable invariant \<open>rx_inv\<close>.
  \<^item> \<open>WindowSender\<close>: \<^verbatim>\<open>clientSlidingWindow\<close> as the record \<open>tx_state\<close>
    and \<open>tx_resend\<close>, \<open>tx_timeout\<close>, \<open>tx_advance\<close> (which calls
    \<open>ackAdvance\<close>), \<open>tx_wait\<close>, \<open>tx_copy\<close>, \<open>tx_body\<close>, \<open>tx_loop\<close>; the
    Go-Back-N invariant \<open>tx_rel W M base nxt\<close>.
  \<^item> \<open>ReceiverState\<close>: the receiver as a state machine, \<open>rx_reach\<close> (an
    \<open>inductive\<close> relation: the states the do-while body reaches from
    \<open>rx_init\<close> on in-range frames), with the invariant, termination, equivalence
    and round-trip properties of the receiver, and the step properties of section 8
    of the specification (no-gap advancement, idempotent redelivery, monotone
    cumulative acknowledgment) through the abstract receiver.
  \<^item> \<open>SenderState\<close>: the sender as a state machine, \<open>tx_reach\<close> (the states
    the for-loop body reaches from \<open>tx_init\<close> on acknowledgments in
    \<open>[0, INT_MAX - seqRange]\<close>, on which \<^verbatim>\<open>ackAdvance\<close>'s arithmetic
    does not overflow), its type invariant \<open>tx_wf\<close> and the window bound.
  \<^item> \<open>SenderRefinement\<close>: the sender against an abstract Go-Back-N sender, under
    \<open>acks_from\<close> (every acknowledgment on the wire is the residue of a frame number
    a receiver could acknowledge).  The abstract trailing edge after a list of
    acknowledgments is \<open>gbn_base\<close> (a fold of \<open>max\<close>).  The refinement of the
    acknowledgment update is lifted to the timeout branch and the full-window loop.
    It is then lifted to one pass of the for loop, which sends only once the window
    after the acknowledgments the wait consumed has room, and to whole runs.
    \<open>tx_gbn_run\<close> (an \<open>inductive\<close> relation) tracks the abstract edge along
    a run, and every state of a run is related to it, with the code's own count
    \<open>tx_base\<close> recovering it.  On a run the wait returns at once exactly when
    the abstract window has room.  From every state the loop reaches
    (\<open>tx_gbn_reach\<close>), the only faults are starvation and line 135, and every
    outstanding frame's number is recovered from its stored sequence number.
  \<^item> This theory: the properties spanning the sender and the receiver.

  The components interact only through the trace and the scripts of \<open>env\<close>:
  the frames one side sends are the inbox of the other, as in
  \<open>lockstep_session\<close> below.

  \<^medskip>\<^bold>\<open>What the lemmas show.\<close>
  For each component: the behaviour of every branch (fault and starvation
  included), the effect of every loop on the trace and counters, a refinement to an
  abstract protocol (\<open>ack_credit\<close> for \<^verbatim>\<open>ackAdvance\<close>, the cumulative
  receiver \<open>rcv_acks\<close> for \<^verbatim>\<open>serverEarlyRetrans\<close>, the Go-Back-N trailing
  edge for the sender's acknowledgment update and resend loop, and a Go-Back-N send
  for one pass of the sender's for loop), liveness against a
  prompt peer, with the specification's scenarios as witnesses.  On the state
  machines: the receiver invariant \<open>rx_inv\<close> of every reachable state (rule
  induction on \<open>rx_reach\<close>), the sender's type invariant \<open>tx_wf\<close> of every
  reachable state (rule induction on \<open>tx_reach\<close>) and the window bound of the
  specification.  Equivalences of the code's expressions with reference definitions
  of the specification (\<open>ack_distance\<close> for \<^verbatim>\<open>ackAdvance\<close>,
  \<open>rx_accepts\<close> for the receiver's \<open>offset > 0\<close> test, the outstanding count for
  the sender's full-window test), the round trip of a frame number through its sequence
  number at both ends, and the termination of the receiver's fold
  loop on every well-shaped buffer.  The defects the
  modelling exposed are stated as theorems over all inputs of their kind.  They are:
  \<^item> the precedence error in \<^verbatim>\<open>serverReliable\<close>'s guard;
  \<^item> the negative advance of \<^verbatim>\<open>ackAdvance\<close> for a negative acknowledgment;
  \<^item> its signed overflow for an acknowledgment near \<open>INT_MAX\<close>;
  \<^item> the out-of-bounds read of line 135;
  \<^item> the copy loop writing into the next slot, or past the buffer, for \<open>max = 1\<close>;
  \<^item> the stop-and-wait client's counter adding a whole XOR;
  \<^item> the receiver counting a duplicate as a new message;
  \<^item> the receiver's unchecked buffer write.

  \<^medskip>\<^bold>\<open>Termination.\<close>
  No fuel is used.  Every waiting loop consumes a poll answer or a received datagram
  per iteration, and terminates by the length of that script (\<open>sw_wait\<close>,
  \<open>sr_round\<close>, \<open>rx_round\<close>, \<open>tx_wait\<close>); counting loops terminate by
  \<open>nat (bound - i)\<close>; \<open>rx_fold\<close> terminates because each iteration clears a
  set flag or leaves the read slot cleared (\<open>rx_fold_measure\<close>).  Liveness is
  proved as the value \<open>Inr\<close> on a script long enough for the run.

  \<^medskip>\<^bold>\<open>Not modelled.\<close>
  The driver (\<^verbatim>\<open>main\<close>, argument parsing, socket set-up) is not in the sources.
  Payload words other than the first and the byte layout of datagrams are not
  modelled.  C \<open>int\<close> is modelled as \<open>int\<close>, and it agrees with C only where
  no signed operation overflows, which is undefined behaviour.  So the theorems about
  \<^verbatim>\<open>ackAdvance\<close> assume \<open>ackAdvance_defined\<close>.  The sender's reachable
  states assume acknowledgments of at most \<open>INT_MAX - seqRange\<close>, and
  \<open>ackAdvance_overflow\<close> shows that the assumption is needed.  The counters stay
  below \<open>max\<close> plus the number of retransmissions, and their overflow is not
  modelled.
  \<open>sizeof(message) / sizeof(int)\<close> is fixed at 2, an LP64 target.  A
  retransmission (\<open>SendFromAddr\<close>) sends bytes at an address the model does not
  have, so no theorem feeds a retransmitted datagram to the receiver; the composed
  session of \<open>lockstep_session\<close> is loss-free for that reason.  Every line of
  \<^verbatim>\<open>src/udp.cpp\<close> outside comments and the include and prototype lines is
  translated by a definition of the map.
\<close>

section \<open>Properties spanning the sender and the receiver\<close>

fun acks_of :: "out_event list \<Rightarrow> int list" where
  "acks_of [] = []"
| "acks_of (AckTo a # es) = a # acks_of es"
| "acks_of (_ # es) = acks_of es"

lemma acks_of_map_AckTo [simp]: "acks_of (map AckTo xs) = xs"
  by (induction xs) simp_all

lemma sent_frames_map_SendTo [simp]: "sent_frames (map SendTo xs) = xs"
  by (induction xs) simp_all

text \<open>
  C11 (functional).  The two window components agree on sequence numbering and on
  the meaning of an acknowledgment: the frames \<open>clientSlidingWindow\<close> sends in a
  session without loss, given to \<open>serverEarlyRetrans\<close>, produce acknowledgments
  which, given back to the sender (each available at its first poll), let the sender
  finish the session with no retransmission.
\<close>

theorem lockstep_session:
  assumes W: "0 < W" and M: "2 \<le> msgMax" and msg: "2 \<le> length message"
  shows "\<exists>rx tx. serverEarlyRetrans \<lparr>polls = [], inbox = map (\<lambda>k. int k mod (W * 2 + 1)) [0..<nat msgMax], clock = [], trace = []\<rparr> msgMax W = Inr rx \<and>
           clientSlidingWindow \<lparr>polls = replicate (nat msgMax) 1, inbox = acks_of (trace rx),
             clock = replicate (nat msgMax) 0, trace = []\<rparr> msgMax message W = Inr (0, tx) \<and>
           sent_frames (trace tx) = map (\<lambda>k. int k mod (W * 2 + 1)) [0..<nat msgMax]"
proof -
  let ?R = "W * 2 + 1" and ?n = "nat msgMax"
  let ?frames = "map (\<lambda>k. int k mod (W * 2 + 1)) [0..<nat msgMax]"
  have m: "msgMax = 0 + int ?n" using M by simp
  let ?rx0 = "\<lparr>polls = [], inbox = map (\<lambda>k. int k mod (W * 2 + 1)) [0..<nat msgMax], clock = [], trace = []\<rparr>"
  have ib: "inbox ?rx0 = map (\<lambda>i. (0 + int i) mod ?R) [0..<?n] @ []" by simp
  obtain s where "rx_loop ?rx0 msgMax W 0 (rx_init W) =
      Inr (s, ?rx0\<lparr>inbox := [], trace := trace ?rx0 @ map (\<lambda>i. AckTo ((0 + int i + 1) mod ?R)) [0..<?n]\<rparr>)"
    using rx_loop_in_order [OF W rx_init_rel [OF W] ib m] by blast
  then have rx: "serverEarlyRetrans ?rx0 msgMax W =
      Inr (?rx0\<lparr>inbox := [], trace := map (\<lambda>i. AckTo ((int i + 1) mod ?R)) [0..<?n]\<rparr>)"
    by (simp add: serverEarlyRetrans_def)
  let ?acks = "map (\<lambda>i. (int i + 1) mod ?R) [0..<?n]"
  have acks: "acks_of (map (\<lambda>i. AckTo ((int i + 1) mod ?R)) [0..<?n]) = ?acks"
    using acks_of_map_AckTo [of ?acks] by (simp add: comp_def)
  let ?tx0 = "\<lparr>polls = replicate ?n 1, inbox = ?acks, clock = replicate ?n 0, trace = []\<rparr>"
  have i: "0 \<le> (0::int)" "lastAckRec (tx_init msgMax message W) = 0 mod (W + 1)"
    "lastFrameSent (tx_init msgMax message W) = 0 mod (W + 1)"
    "length (tbuf (tx_init msgMax message W)) = nat ((W + 1) * msgMax)"
    "2 \<le> length (tmsg (tx_init msgMax message W))"
    using msg by (simp_all add: tx_init_def)
  have pl: "polls ?tx0 = replicate ?n 1 @ []" and ibt: "inbox ?tx0 = map (\<lambda>i. (0 + int i + 1) mod ?R) [0..<?n] @ []"
    and ck: "clock ?tx0 = replicate ?n 0 @ []" by simp_all
  obtain s' where "tx_loop ?tx0 msgMax W (tx_init msgMax message W) 0 =
      Inr (s', ?tx0\<lparr>polls := [], inbox := [], clock := [],
         trace := trace ?tx0 @ map (\<lambda>i. SendTo ((0 + int i) mod ?R)) [0..<?n]\<rparr>)"
    and "retrans s' = retrans (tx_init msgMax message W)"
    using tx_loop_in_order [OF W M i pl ibt ck _ m] by auto
  then have tx: "clientSlidingWindow ?tx0 msgMax message W =
      Inr (0, ?tx0\<lparr>polls := [], inbox := [], clock := [], trace := map (\<lambda>i. SendTo (int i mod ?R)) [0..<?n]\<rparr>)"
    by (simp add: clientSlidingWindow_def tx_init_def)
  have "sent_frames (map (\<lambda>i. SendTo (int i mod ?R)) [0..<?n]) = ?frames"
    using sent_frames_map_SendTo [of ?frames] by (simp add: comp_def)
  then show ?thesis using rx tx acks by auto
qed

theorem lockstep_session_witness:
  "0 < (2::int) \<and> 2 \<le> (3::int) \<and> 2 \<le> length [7, 8::int] \<and>
   (\<exists>rx tx. serverEarlyRetrans \<lparr>polls = [], inbox = map (\<lambda>k. int k mod (2 * 2 + 1)) [0..<nat 3], clock = [], trace = []\<rparr> 3 2 = Inr rx \<and>
      clientSlidingWindow \<lparr>polls = replicate (nat 3) 1, inbox = acks_of (trace rx),
        clock = replicate (nat 3) 0, trace = []\<rparr> 3 [7, 8] 2 = Inr (0, tx) \<and>
      sent_frames (trace tx) = map (\<lambda>k. int k mod (2 * 2 + 1)) [0..<nat 3])"
  using lockstep_session [of 2 3 "[7, 8]"] by simp

end
